theory Spec2Isabelle
  imports Main "HOL-Library.Word"
begin

section \<open>The MQTT relay (mqtt\_relay.py)\<close>

text \<open>
  The relay subscribes to a topic on a source broker (Mosquitto) and republishes every
  message to a destination broker (RabbitMQ). The program is a handful of callbacks and a
  \<open>main\<close> that wires them; everything it does is a call into a library (the MQTT
  client, the logger, the JSON decoder). The model therefore records the calls the program
  makes, in order, as a list of actions, takes the outcome of every library call that
  depends on the network as an input, and returns the exception that leaves a function
  uncaught, if any.
\<close>

subsection \<open>Python values: bytes, text, exceptions\<close>

type_synonym byte = "8 word"

text \<open>A Python \<open>str\<close> is a sequence of Unicode code points.\<close>

type_synonym pystr = "nat list"

definition py :: "string \<Rightarrow> pystr" where
  "py s = map of_char s"

text \<open>
  The exceptions that occur. \<open>except OSError\<close> catches \<open>OSError\<close> and its subclasses
  only; \<open>except json.JSONDecodeError\<close> catches \<open>JSONDecodeError\<close> only, although
  both it and \<open>UnicodeDecodeError\<close> are subclasses of \<open>ValueError\<close>. \<open>OutOfFuel\<close>
  is no exception of Python: it marks the end of the bound that makes the JSON scanner's
  recursion structural, and \<open>json_loads\<close> never returns it (\<open>json_loads_fuel\<close>).
\<close>

datatype exn =
    OSError
  | ValueError
  | JSONDecodeError
  | UnicodeDecodeError
  | UnicodeEncodeError
  | TypeError
  | RecursionError
  | KeyboardInterrupt
  | OutOfFuel

text \<open>
  The two limits of the interpreter that \<open>json.loads\<close> is subject to: how many arrays
  and objects, one inside the other, the recursion limit leaves room for when
  \<open>json.loads\<close> is called, and the largest number of digits \<open>int\<close> converts from
  text (\<open>sys.get_int_max_str_digits()\<close>: 4300 unless set otherwise, 0 for no limit).
\<close>

record interpreter =
  recursion_room :: nat
  max_str_digits :: nat

subsection \<open>UTF-8\<close>

text \<open>
  \<open>bytes.decode("utf-8")\<close> with the default strict error handler accepts exactly the
  well-formed byte sequences of the Unicode standard (no overlong forms, no surrogates,
  nothing above U+10FFFF) and raises \<open>UnicodeDecodeError\<close> on anything else;
  \<open>None\<close> is that exception.
\<close>

definition cont :: "byte \<Rightarrow> bool" where
  "cont b \<longleftrightarrow> 0x80 \<le> unat b \<and> unat b \<le> 0xBF"

definition lo2 :: "byte \<Rightarrow> nat" where
  "lo2 b = unat b - 0x80"

fun utf8_decode :: "byte list \<Rightarrow> pystr option" where
  "utf8_decode [] = Some []"
| "utf8_decode (b0 # bs) =
     (if unat b0 < 0x80 then map_option ((#) (unat b0)) (utf8_decode bs)
      else if 0xC2 \<le> unat b0 \<and> unat b0 \<le> 0xDF then
        (case bs of
           b1 # r \<Rightarrow>
             if cont b1
             then map_option ((#) ((unat b0 - 0xC0) * 64 + lo2 b1)) (utf8_decode r)
             else None
         | _ \<Rightarrow> None)
      else if 0xE0 \<le> unat b0 \<and> unat b0 \<le> 0xEF then
        (case bs of
           b1 # b2 # r \<Rightarrow>
             if cont b1 \<and> cont b2
                \<and> (unat b0 = 0xE0 \<longrightarrow> 0xA0 \<le> unat b1)
                \<and> (unat b0 = 0xED \<longrightarrow> unat b1 \<le> 0x9F)
             then map_option
                    ((#) ((unat b0 - 0xE0) * 4096 + lo2 b1 * 64 + lo2 b2)) (utf8_decode r)
             else None
         | _ \<Rightarrow> None)
      else if 0xF0 \<le> unat b0 \<and> unat b0 \<le> 0xF4 then
        (case bs of
           b1 # b2 # b3 # r \<Rightarrow>
             if cont b1 \<and> cont b2 \<and> cont b3
                \<and> (unat b0 = 0xF0 \<longrightarrow> 0x90 \<le> unat b1)
                \<and> (unat b0 = 0xF4 \<longrightarrow> unat b1 \<le> 0x8F)
             then map_option
                    ((#) ((unat b0 - 0xF0) * 262144 + lo2 b1 * 4096 + lo2 b2 * 64 + lo2 b3))
                    (utf8_decode r)
             else None
         | _ \<Rightarrow> None)
      else None)"

text \<open>
  \<open>str.encode("utf-8")\<close>, which the MQTT client applies to a \<open>str\<close> payload before it
  sends it. A surrogate code point raises \<open>UnicodeEncodeError\<close> (\<open>None\<close>); code points
  above U+10FFFF do not exist in a \<open>str\<close>.
\<close>

definition utf8_encode_cp :: "nat \<Rightarrow> byte list option" where
  "utf8_encode_cp c =
     (if c < 0x80 then Some [of_nat c]
      else if c < 0x800 then Some [of_nat (0xC0 + c div 64), of_nat (0x80 + c mod 64)]
      else if c < 0x10000 then
        (if 0xD800 \<le> c \<and> c \<le> 0xDFFF then None
         else Some [of_nat (0xE0 + c div 4096), of_nat (0x80 + c div 64 mod 64),
                    of_nat (0x80 + c mod 64)])
      else if c < 0x110000 then
        Some [of_nat (0xF0 + c div 262144), of_nat (0x80 + c div 4096 mod 64),
              of_nat (0x80 + c div 64 mod 64), of_nat (0x80 + c mod 64)]
      else None)"

fun utf8_encode :: "pystr \<Rightarrow> byte list option" where
  "utf8_encode [] = Some []"
| "utf8_encode (c # cs) =
     (case utf8_encode_cp c of
        None \<Rightarrow> None
      | Some bs \<Rightarrow> map_option ((@) bs) (utf8_encode cs))"

subsection \<open>The JSON decoder\<close>

text \<open>
  \<open>json.loads\<close> on a \<open>str\<close>, after the standard library's \<open>json.decoder\<close> and
  \<open>json.scanner\<close>: a recursive-descent scanner over the text. Every syntax error is a
  \<open>JSONDecodeError\<close>; an integer with too many digits is a \<open>ValueError\<close>, and
  arrays and objects nested deeper than the interpreter has room for are a
  \<open>RecursionError\<close>. Numbers keep their text, since only their type matters to the
  relay.
\<close>

datatype json =
    JNull
  | JBool bool
  | JNumber pystr
  | JString pystr
  | JArray "json list"
  | JObject "(pystr \<times> json) list"

text \<open>The scanner's whitespace: space, tab, line feed, carriage return.\<close>

definition ws :: "nat \<Rightarrow> bool" where
  "ws c \<longleftrightarrow> c = 0x20 \<or> c = 0x09 \<or> c = 0x0A \<or> c = 0x0D"

definition skip_ws :: "pystr \<Rightarrow> pystr" where
  "skip_ws s = dropWhile ws s"

definition digit :: "nat \<Rightarrow> bool" where
  "digit c \<longleftrightarrow> 0x30 \<le> c \<and> c \<le> 0x39"

definition hexval :: "nat \<Rightarrow> nat option" where
  "hexval c =
     (if 0x30 \<le> c \<and> c \<le> 0x39 then Some (c - 0x30)
      else if 0x41 \<le> c \<and> c \<le> 0x46 then Some (c - 0x41 + 10)
      else if 0x61 \<le> c \<and> c \<le> 0x66 then Some (c - 0x61 + 10)
      else None)"

text \<open>
  \<open>_decode_uXXXX\<close>: four hexadecimal digits give a code point and the text after them;
  anything else is an invalid escape.
\<close>

definition decode_uXXXX :: "pystr \<Rightarrow> (nat \<times> pystr) option" where
  "decode_uXXXX s =
     (case s of
        a # b # c # d # r \<Rightarrow>
          (case (hexval a, hexval b, hexval c, hexval d) of
             (Some w, Some x, Some y, Some z) \<Rightarrow> Some (((w * 16 + x) * 16 + y) * 16 + z, r)
           | _ \<Rightarrow> None)
      | _ \<Rightarrow> None)"

text \<open>The one-letter escapes of \<open>BACKSLASH\<close>: quote, backslash, slash, b, f, n, r, t.\<close>

definition backslash :: "nat \<Rightarrow> nat option" where
  "backslash e =
     (if e = 0x22 then Some 0x22
      else if e = 0x5C then Some 0x5C
      else if e = 0x2F then Some 0x2F
      else if e = 0x62 then Some 0x08
      else if e = 0x66 then Some 0x0C
      else if e = 0x6E then Some 0x0A
      else if e = 0x72 then Some 0x0D
      else if e = 0x74 then Some 0x09
      else None)"

text \<open>
  The escape after a backslash: the character it stands for and the text after it. A
  \<open>\u\<close> escape of a high surrogate directly followed by a \<open>\u\<close> escape of a low
  surrogate is one code point; followed by a \<open>\u\<close> escape of anything else it stays a
  lone surrogate and the second escape is read on its own.
\<close>

definition scan_escape :: "pystr \<Rightarrow> (nat \<times> pystr) option" where
  "scan_escape s =
     (case s of
        [] \<Rightarrow> None
      | e # r \<Rightarrow>
          if e \<noteq> 0x75 then map_option (\<lambda>ch. (ch, r)) (backslash e)
          else
            (case decode_uXXXX r of
               None \<Rightarrow> None
             | Some (uni, r1) \<Rightarrow>
                 if 0xD800 \<le> uni \<and> uni \<le> 0xDBFF \<and> take 2 r1 = [0x5C, 0x75] then
                   (case decode_uXXXX (drop 2 r1) of
                      None \<Rightarrow> None
                    | Some (uni2, r2) \<Rightarrow>
                        if 0xDC00 \<le> uni2 \<and> uni2 \<le> 0xDFFF
                        then Some (0x10000 + (uni - 0xD800) * 1024 + (uni2 - 0xDC00), r2)
                        else Some (uni, r1))
                 else Some (uni, r1)))"

text \<open>
  \<open>scanstring\<close> in strict mode, called after the opening quote: the decoded string and
  the text after the closing quote. \<open>None\<close> is a \<open>JSONDecodeError\<close> (unterminated
  string, control character, invalid escape).
\<close>

function scanstring :: "pystr \<Rightarrow> (pystr \<times> pystr) option" where
  "scanstring [] = None"
| "scanstring (c # cs) =
     (if c = 0x22 then Some ([], cs)
      else if c = 0x5C then
        (case scan_escape cs of
           None \<Rightarrow> None
         | Some (ch, r) \<Rightarrow> map_option (apfst ((#) ch)) (scanstring r))
      else if c < 0x20 then None
      else map_option (apfst ((#) c)) (scanstring cs))"
  by pat_completeness auto
termination
proof (relation "measure length")
  show "wf (measure length)" by simp
next
  fix cs r :: pystr and x ch c :: nat and x2
  assume e: "scan_escape cs = Some x2" "(ch, r) = x2"
  have u: "\<And>s v t. decode_uXXXX s = Some (v, t) \<Longrightarrow> length t < length s"
    by (auto simp: decode_uXXXX_def split: list.splits option.splits prod.splits)
  have "length r < length cs"
  proof (cases cs)
    case Nil
    then show ?thesis using e by (simp add: scan_escape_def)
  next
    case (Cons e' r')
    show ?thesis
    proof (cases "e' = 0x75")
      case False
      then show ?thesis using e Cons by (auto simp: scan_escape_def)
    next
      case True
      obtain uni r1 where d1: "decode_uXXXX r' = Some (uni, r1)"
        using e Cons True by (auto simp: scan_escape_def split: option.splits)
      have l1: "length r1 < length r'" using u[OF d1] .
      show ?thesis
      proof (cases "0xD800 \<le> uni \<and> uni \<le> 0xDBFF \<and> take 2 r1 = [0x5C, 0x75]")
        case False
        then have "r = r1" using e Cons True d1 by (auto simp: scan_escape_def)
        then show ?thesis using l1 Cons by simp
      next
        case hi: True
        obtain uni2 r2 where d2: "decode_uXXXX (drop 2 r1) = Some (uni2, r2)"
          using e Cons True d1 hi by (auto simp: scan_escape_def split: option.splits)
        have l2: "length r2 < length r1" using u[OF d2] by simp
        have "r = r2 \<or> r = r1"
          using e Cons True d1 hi d2 by (auto simp: scan_escape_def split: if_splits)
        then show ?thesis using l1 l2 Cons by auto
      qed
    qed
  qed
  then show "(r, c # cs) \<in> measure length" by simp
next
  fix c :: nat and cs :: pystr
  show "(cs, c # cs) \<in> measure length" by simp
qed

text \<open>
  \<open>NUMBER_RE\<close>, \<open>(-?(?:0|[1-9][0-9]*))(\.[0-9]+)?([eE][-+]?[0-9]+)?\<close>, matched at the
  start of the text: the matched text and the rest. Each optional group is taken when it
  matches and skipped otherwise.
\<close>

definition match_int :: "pystr \<Rightarrow> (pystr \<times> pystr) option" where
  "match_int s =
     (case s of
        [] \<Rightarrow> None
      | c # r \<Rightarrow>
          if c = 0x30 then Some ([c], r)
          else if 0x31 \<le> c \<and> c \<le> 0x39 then Some (c # takeWhile digit r, dropWhile digit r)
          else None)"

definition match_frac :: "pystr \<Rightarrow> pystr \<times> pystr" where
  "match_frac s =
     (case s of
        c # d # r \<Rightarrow>
          if c = 0x2E \<and> digit d then (c # d # takeWhile digit r, dropWhile digit r)
          else ([], s)
      | _ \<Rightarrow> ([], s))"

definition match_exp :: "pystr \<Rightarrow> pystr \<times> pystr" where
  "match_exp s =
     (case s of
        c # r \<Rightarrow>
          if c = 0x65 \<or> c = 0x45 then
            (case r of
               d # r' \<Rightarrow>
                 if digit d then (c # d # takeWhile digit r', dropWhile digit r')
                 else if d = 0x2D \<or> d = 0x2B then
                   (case r' of
                      d' # r'' \<Rightarrow>
                        if digit d'
                        then (c # d # d' # takeWhile digit r'', dropWhile digit r'')
                        else ([], s)
                    | [] \<Rightarrow> ([], s))
                 else ([], s)
             | [] \<Rightarrow> ([], s))
          else ([], s)
      | [] \<Rightarrow> ([], s))"

definition match_number :: "pystr \<Rightarrow> (pystr \<times> pystr) option" where
  "match_number s =
     (case (case s of
              c # r \<Rightarrow> if c = 0x2D then map_option (apfst ((#) c)) (match_int r)
                       else match_int s
            | [] \<Rightarrow> None) of
        None \<Rightarrow> None
      | Some (i, r1) \<Rightarrow>
          (case match_frac r1 of
             (f, r2) \<Rightarrow> (case match_exp r2 of (e, r3) \<Rightarrow> Some (i @ f @ e, r3))))"

text \<open>\<open>string[idx:idx + n] == lit\<close>: the rest after the literal, if the text starts with it.\<close>

definition literal :: "string \<Rightarrow> pystr \<Rightarrow> pystr option" where
  "literal lit s =
     (if take (length lit) s = py lit then Some (drop (length lit) s) else None)"

text \<open>
  The digit limit of \<open>int\<close>: a number without fraction and exponent is converted by
  \<open>int\<close>, which raises \<open>ValueError\<close> when the text has more than 640 digits and more
  than the limit, unless the limit is 0.
\<close>

definition int_too_long :: "nat \<Rightarrow> pystr \<Rightarrow> bool" where
  "int_too_long m num \<longleftrightarrow>
     filter (\<lambda>c. c = 0x2E \<or> c = 0x65 \<or> c = 0x45) num = []
     \<and> 640 < length (filter digit num)
     \<and> 0 < m \<and> m < length (filter digit num)"

text \<open>
  The values of \<open>scan_once\<close> that are neither string nor object nor array, tried in
  its order: \<open>null\<close>, \<open>true\<close>, \<open>false\<close>, a number, \<open>NaN\<close>, \<open>Infinity\<close>,
  \<open>-Infinity\<close>; nothing else is a value. The first argument is the digit limit.
\<close>

definition scan_atom :: "nat \<Rightarrow> pystr \<Rightarrow> exn + (json \<times> pystr)" where
  "scan_atom m s =
     (case literal ''null'' s of
        Some rest \<Rightarrow> Inr (JNull, rest)
      | None \<Rightarrow>
     (case literal ''true'' s of
        Some rest \<Rightarrow> Inr (JBool True, rest)
      | None \<Rightarrow>
     (case literal ''false'' s of
        Some rest \<Rightarrow> Inr (JBool False, rest)
      | None \<Rightarrow>
     (case match_number s of
        Some (num, rest) \<Rightarrow>
          if int_too_long m num then Inl ValueError else Inr (JNumber num, rest)
      | None \<Rightarrow>
     (case literal ''NaN'' s of
        Some rest \<Rightarrow> Inr (JNumber (py ''NaN''), rest)
      | None \<Rightarrow>
     (case literal ''Infinity'' s of
        Some rest \<Rightarrow> Inr (JNumber (py ''Infinity''), rest)
      | None \<Rightarrow>
     (case literal ''-Infinity'' s of
        Some rest \<Rightarrow> Inr (JNumber (py ''-Infinity''), rest)
      | None \<Rightarrow> Inl JSONDecodeError)))))))"

text \<open>
  \<open>scan_once\<close> with \<open>JSONArray\<close> and \<open>JSONObject\<close>. The first argument bounds the
  number of nested calls, so that the recursion is structural; \<open>json_loads\<close> starts with
  \<open>fuel s\<close>, twice the length of the text plus one, which no text exhausts
  (\<open>json_loads_fuel\<close> below). The second argument is the room the recursion limit
  leaves: the scanner enters an array or an object only while there is room, and raises
  \<open>RecursionError\<close> otherwise. The third is the digit limit. \<open>parse_array\<close> is the
  loop of \<open>JSONArray\<close>, entered where the next value starts, with the values read so
  far; \<open>parse_object\<close> is the loop of \<open>JSONObject\<close>, entered after the opening quote
  of a key, with the pairs read so far.
\<close>

fun scan_once :: "nat \<Rightarrow> nat \<Rightarrow> nat \<Rightarrow> pystr \<Rightarrow> exn + (json \<times> pystr)"
  and parse_array ::
    "nat \<Rightarrow> nat \<Rightarrow> nat \<Rightarrow> json list \<Rightarrow> pystr \<Rightarrow> exn + (json \<times> pystr)"
  and parse_object ::
    "nat \<Rightarrow> nat \<Rightarrow> nat \<Rightarrow> (pystr \<times> json) list \<Rightarrow> pystr \<Rightarrow> exn + (json \<times> pystr)"
where
  "scan_once 0 room m s = Inl OutOfFuel"
| "scan_once (Suc n) room m s =
     (case s of
        [] \<Rightarrow> Inl JSONDecodeError
      | c # r \<Rightarrow>
          if c = 0x22 then
            (case scanstring r of
               None \<Rightarrow> Inl JSONDecodeError
             | Some (str, rest) \<Rightarrow> Inr (JString str, rest))
          else if c = 0x7B then
            (if room = 0 then Inl RecursionError
             else
               (case skip_ws r of
                  [] \<Rightarrow> Inl JSONDecodeError
                | d # r1 \<Rightarrow>
                    if d = 0x7D then Inr (JObject [], r1)
                    else if d = 0x22 then parse_object n (room - 1) m [] r1
                    else Inl JSONDecodeError))
          else if c = 0x5B then
            (if room = 0 then Inl RecursionError
             else
               (case skip_ws r of
                  [] \<Rightarrow> Inl JSONDecodeError
                | d # r1 \<Rightarrow>
                    if d = 0x5D then Inr (JArray [], r1)
                    else parse_array n (room - 1) m [] (d # r1)))
          else scan_atom m s)"
| "parse_array 0 room m vs s = Inl OutOfFuel"
| "parse_array (Suc n) room m vs s =
     (case scan_once n room m s of
        Inl e \<Rightarrow> Inl e
      | Inr (v, r) \<Rightarrow>
          (case skip_ws r of
             [] \<Rightarrow> Inl JSONDecodeError
           | d # r1 \<Rightarrow>
               if d = 0x5D then Inr (JArray (vs @ [v]), r1)
               else if d = 0x2C then parse_array n room m (vs @ [v]) (skip_ws r1)
               else Inl JSONDecodeError))"
| "parse_object 0 room m ps s = Inl OutOfFuel"
| "parse_object (Suc n) room m ps s =
     (case scanstring s of
        None \<Rightarrow> Inl JSONDecodeError
      | Some (key, r) \<Rightarrow>
          (case skip_ws r of
             [] \<Rightarrow> Inl JSONDecodeError
           | c # r1 \<Rightarrow>
               if c = 0x3A then
                 (case scan_once n room m (skip_ws r1) of
                    Inl e \<Rightarrow> Inl e
                  | Inr (v, r2) \<Rightarrow>
                      (case skip_ws r2 of
                         [] \<Rightarrow> Inl JSONDecodeError
                       | d # r3 \<Rightarrow>
                           if d = 0x7D then Inr (JObject (ps @ [(key, v)]), r3)
                           else if d = 0x2C then
                             (case skip_ws r3 of
                                [] \<Rightarrow> Inl JSONDecodeError
                              | q # r4 \<Rightarrow>
                                  if q = 0x22
                                  then parse_object n room m (ps @ [(key, v)]) r4
                                  else Inl JSONDecodeError)
                           else Inl JSONDecodeError))
               else Inl JSONDecodeError))"

text \<open>
  \<open>json.loads\<close>: a leading byte order mark is refused, whitespace around the one value
  is skipped, and anything after it is an error ("Extra data").
\<close>

fun fuel :: "pystr \<Rightarrow> nat" where
  "fuel [] = Suc 0"
| "fuel (c # cs) = Suc (Suc (fuel cs))"

definition json_loads :: "interpreter \<Rightarrow> pystr \<Rightarrow> exn + json" where
  "json_loads ip s =
     (if take 1 s = [0xFEFF] then Inl JSONDecodeError
      else
        (case scan_once (fuel s) (recursion_room ip) (max_str_digits ip) (skip_ws s) of
           Inl e \<Rightarrow> Inl e
         | Inr (v, r) \<Rightarrow> if skip_ws r = [] then Inr v else Inl JSONDecodeError))"

text \<open>
  The operator \<open>in\<close> with a \<open>str\<close> on the left, as \<open>"tag_id" not in payload\<close> uses it on
  the decoded value: a key of a \<open>dict\<close>, an element of a \<open>list\<close>, a substring of a
  \<open>str\<close>; \<open>None\<close>, \<open>bool\<close>, \<open>int\<close> and \<open>float\<close> are not containers and raise
  \<open>TypeError\<close>.
\<close>

fun substring :: "pystr \<Rightarrow> pystr \<Rightarrow> bool" where
  "substring p [] = (p = [])"
| "substring p (c # cs) = (take (length p) (c # cs) = p \<or> substring p cs)"

fun py_in :: "pystr \<Rightarrow> json \<Rightarrow> exn + bool" where
  "py_in k (JObject ps) = Inr (k \<in> set (map fst ps))"
| "py_in k (JArray vs) = Inr (JString k \<in> set vs)"
| "py_in k (JString t) = Inr (substring k t)"
| "py_in k JNull = Inl TypeError"
| "py_in k (JBool b) = Inl TypeError"
| "py_in k (JNumber n) = Inl TypeError"

subsection \<open>Configuration, messages, actions\<close>

text \<open>The module-level settings, read once from the environment.\<close>

record config =
  MOSQUITTO_HOST :: pystr
  MOSQUITTO_PORT :: int
  RABBITMQ_HOST :: pystr
  RABBITMQ_PORT :: int
  RABBITMQ_USER :: pystr
  RABBITMQ_PASS :: pystr
  RFID_TOPIC :: pystr

definition default_config :: config where
  "default_config =
     \<lparr>MOSQUITTO_HOST = py ''localhost'', MOSQUITTO_PORT = 1883,
      RABBITMQ_HOST = py ''localhost'', RABBITMQ_PORT = 1883,
      RABBITMQ_USER = py ''guest'', RABBITMQ_PASS = py ''guest'',
      RFID_TOPIC = py ''rfid/scan''\<rparr>"

text \<open>The message the client hands to \<open>on_message\<close>.\<close>

record mqtt_message =
  topic :: pystr
  payload :: "byte list"
  qos :: nat

text \<open>What \<open>publish\<close> returns: a return code and a message identifier.\<close>

record message_info =
  rc :: int
  mid :: int

definition MQTT_ERR_SUCCESS :: int where
  "MQTT_ERR_SUCCESS = 0"

datatype level = INFO | WARNING | ERROR

text \<open>One constructor for each log message of the source, with its arguments.\<close>

datatype logmsg =
    CannotConnectRabbitMQ pystr int
  | ConnectedRabbitMQ pystr int
  | ConnectedMosquitto pystr int pystr
  | FailedConnectMosquitto int
  | Received pystr pystr
  | MissingTagId
  | NotValidJSON
  | Forwarded int
  | FailedPublish int
  | UnexpectedDisconnect int
  | CannotConnectMosquitto pystr int
  | RelayRunning
  | RelayStopped

text \<open>
  The calls the program makes on the logger and on the two clients, in the order it makes
  them. \<open>RabbitPublish\<close> carries the topic, the payload and the QoS of the call.
\<close>

datatype action =
    Log level logmsg
  | RabbitConnect pystr int nat
  | RabbitLoopStart
  | RabbitPublish pystr pystr nat
  | RabbitLoopStop
  | RabbitDisconnect
  | MosqConnect pystr int nat
  | MosqSubscribe pystr
  | MosqLoopForever
  | MosqDisconnect

text \<open>What a function did and the exception it raised, if it raised one.\<close>

type_synonym run = "action list \<times> exn option"

subsection \<open>The destination client\<close>

text \<open>
  \<open>_connect_rabbitmq\<close>. The argument is what \<open>rabbitmq_client.connect\<close> does: it returns
  (\<open>None\<close>) or raises. An \<open>OSError\<close> is logged and raised again; any other exception
  passes through.
\<close>

definition connect_rabbitmq :: "config \<Rightarrow> exn option \<Rightarrow> run" where
  "connect_rabbitmq cfg outcome =
     (case outcome of
        Some e \<Rightarrow>
          if e = OSError
          then ([RabbitConnect (RABBITMQ_HOST cfg) (RABBITMQ_PORT cfg) 60,
                 Log ERROR (CannotConnectRabbitMQ (RABBITMQ_HOST cfg) (RABBITMQ_PORT cfg))],
                Some e)
          else ([RabbitConnect (RABBITMQ_HOST cfg) (RABBITMQ_PORT cfg) 60], Some e)
      | None \<Rightarrow>
          ([RabbitConnect (RABBITMQ_HOST cfg) (RABBITMQ_PORT cfg) 60,
            RabbitLoopStart,
            Log INFO (ConnectedRabbitMQ (RABBITMQ_HOST cfg) (RABBITMQ_PORT cfg))],
           None))"

subsection \<open>The source client's callbacks\<close>

text \<open>
  \<open>on_connect\<close>. The third argument is what \<open>client.subscribe\<close> does if it is called:
  it returns (\<open>None\<close>) or raises (\<open>ValueError\<close> for an empty topic or an invalid
  filter).
\<close>

definition on_connect :: "config \<Rightarrow> int \<Rightarrow> exn option \<Rightarrow> run" where
  "on_connect cfg r subscribe =
     (if r = 0
      then ([Log INFO (ConnectedMosquitto (MOSQUITTO_HOST cfg) (MOSQUITTO_PORT cfg)
                         (RFID_TOPIC cfg)),
             MosqSubscribe (RFID_TOPIC cfg)],
            subscribe)
      else ([Log ERROR (FailedConnectMosquitto r)], None))"

text \<open>
  The \<open>try\<close> statement of \<open>on_message\<close>: the warnings it logs, and the exception that
  leaves it. Only \<open>JSONDecodeError\<close> is caught.
\<close>

definition check_payload :: "interpreter \<Rightarrow> pystr \<Rightarrow> run" where
  "check_payload ip payload_str =
     (case json_loads ip payload_str of
        Inl e \<Rightarrow>
          if e = JSONDecodeError then ([Log WARNING NotValidJSON], None) else ([], Some e)
      | Inr p \<Rightarrow>
          (case py_in (py ''tag_id'') p of
             Inl e \<Rightarrow>
               if e = JSONDecodeError then ([Log WARNING NotValidJSON], None)
               else ([], Some e)
           | Inr found \<Rightarrow> (if \<not> found then [Log WARNING MissingTagId] else [], None)))"

text \<open>
  \<open>on_message\<close>. The second argument is the interpreter's limits, the third is what
  \<open>rabbitmq_client.publish\<close> does with a topic, a payload and a QoS when this message is
  handled: it raises, or returns its result.
\<close>

definition on_message ::
  "config \<Rightarrow> interpreter \<Rightarrow> (pystr \<Rightarrow> pystr \<Rightarrow> nat \<Rightarrow> exn + message_info)
     \<Rightarrow> mqtt_message \<Rightarrow> run"
where
  "on_message cfg ip publish msg =
     (case utf8_decode (payload msg) of
        None \<Rightarrow> ([], Some UnicodeDecodeError)
      | Some payload_str \<Rightarrow>
          (case check_payload ip payload_str of
             (warnings, Some e) \<Rightarrow>
               (Log INFO (Received (topic msg) payload_str) # warnings, Some e)
           | (warnings, None) \<Rightarrow>
               (case publish (RFID_TOPIC cfg) payload_str 1 of
                  Inl e \<Rightarrow>
                    (Log INFO (Received (topic msg) payload_str) # warnings
                       @ [RabbitPublish (RFID_TOPIC cfg) payload_str 1],
                     Some e)
                | Inr result \<Rightarrow>
                    (Log INFO (Received (topic msg) payload_str) # warnings
                       @ [RabbitPublish (RFID_TOPIC cfg) payload_str 1,
                          if rc result = MQTT_ERR_SUCCESS
                          then Log INFO (Forwarded (mid result))
                          else Log ERROR (FailedPublish (rc result))],
                     None))))"

definition on_disconnect :: "int \<Rightarrow> action list" where
  "on_disconnect r = (if r \<noteq> 0 then [Log WARNING (UnexpectedDisconnect r)] else [])"

subsection \<open>The receive loop and main\<close>

text \<open>
  What reaches the source client while \<open>loop_forever\<close> runs: the broker's answer to the
  connection request with its return code (and what \<open>subscribe\<close> does if \<open>on_connect\<close>
  calls it), a message on the subscription (with what \<open>publish\<close> does while it is
  handled), the loss of the connection with its reason, and the user's interrupt.
\<close>

datatype event =
    Connack int "exn option"
  | Message mqtt_message "pystr \<Rightarrow> pystr \<Rightarrow> nat \<Rightarrow> exn + message_info"
  | Disconnect int
  | CtrlC

text \<open>
  \<open>mosquitto_client.loop_forever()\<close> with the three callbacks installed: the client
  calls the callback of each event in turn; an exception raised by a callback leaves the
  loop (the client does not suppress exceptions of callbacks by default), and so does the
  \<open>KeyboardInterrupt\<close> of the interrupt. The end of the list is the loop returning.
\<close>

fun loop_forever :: "config \<Rightarrow> interpreter \<Rightarrow> event list \<Rightarrow> run" where
  "loop_forever cfg ip [] = ([], None)"
| "loop_forever cfg ip (CtrlC # es) = ([], Some KeyboardInterrupt)"
| "loop_forever cfg ip (Connack r subscribe # es) =
     (case on_connect cfg r subscribe of
        (t, Some e) \<Rightarrow> (t, Some e)
      | (t, None) \<Rightarrow> (case loop_forever cfg ip es of (t', x) \<Rightarrow> (t @ t', x)))"
| "loop_forever cfg ip (Disconnect r # es) =
     (case loop_forever cfg ip es of (t, x) \<Rightarrow> (on_disconnect r @ t, x))"
| "loop_forever cfg ip (Message m publish # es) =
     (case on_message cfg ip publish m of
        (t, Some e) \<Rightarrow> (t, Some e)
      | (t, None) \<Rightarrow> (case loop_forever cfg ip es of (t', x) \<Rightarrow> (t @ t', x)))"

text \<open>
  What the outside world does during one run of the program: the outcome of each of the
  two \<open>connect\<close> calls (\<open>None\<close>: it returns; an interrupt while the call blocks is
  the \<open>KeyboardInterrupt\<close> it raises), the return code with which the destination
  broker answers the connection request, and the events of the receive loop.
  \<open>connect\<close> returns when the request is sent, before the broker answers, and
  \<open>rabbitmq_client\<close> has no \<open>on_connect\<close>: nothing in the program receives the
  destination's answer. \<open>loop_start\<close>, \<open>loop_stop\<close> and \<open>disconnect\<close> return.
\<close>

record world =
  rabbitmq_connect :: "exn option"
  rabbitmq_connack :: int
  mosquitto_connect :: "exn option"
  events :: "event list"

definition main :: "config \<Rightarrow> interpreter \<Rightarrow> world \<Rightarrow> run" where
  "main cfg ip w =
     (case connect_rabbitmq cfg (rabbitmq_connect w) of
        (t1, Some e) \<Rightarrow> (t1, Some e)
      | (t1, None) \<Rightarrow>
          (case mosquitto_connect w of
             Some e \<Rightarrow>
               if e = OSError
               then (t1 @ [MosqConnect (MOSQUITTO_HOST cfg) (MOSQUITTO_PORT cfg) 60,
                           Log ERROR (CannotConnectMosquitto (MOSQUITTO_HOST cfg)
                                        (MOSQUITTO_PORT cfg)),
                           RabbitLoopStop, RabbitDisconnect],
                     Some e)
               else (t1 @ [MosqConnect (MOSQUITTO_HOST cfg) (MOSQUITTO_PORT cfg) 60], Some e)
           | None \<Rightarrow>
               (case loop_forever cfg ip (events w) of
                  (t2, x) \<Rightarrow>
                    (t1 @ [MosqConnect (MOSQUITTO_HOST cfg) (MOSQUITTO_PORT cfg) 60,
                           Log INFO RelayRunning, MosqLoopForever]
                        @ t2
                        @ (if x = Some KeyboardInterrupt then [Log INFO RelayStopped] else [])
                        @ [MosqDisconnect, RabbitLoopStop, RabbitDisconnect],
                     if x = Some KeyboardInterrupt then None else x))))"

text \<open>
  The exit status of \<open>python mqtt_relay.py\<close>: 0 when \<open>main\<close> returns, 1 when an
  exception leaves it (130 for an interrupt that nothing catches).
\<close>

definition exit_status :: "run \<Rightarrow> nat" where
  "exit_status r =
     (case snd r of
        None \<Rightarrow> 0
      | Some e \<Rightarrow> if e = KeyboardInterrupt then 130 else 1)"

text \<open>
  The destination connection is established when \<open>connect\<close> has returned and the
  broker has accepted the session.
\<close>

definition destination_connected :: "world \<Rightarrow> bool" where
  "destination_connected w \<longleftrightarrow> rabbitmq_connect w = None \<and> rabbitmq_connack w = 0"

text \<open>The \<open>publish\<close> calls among a list of actions: topic, payload, QoS.\<close>

fun publish_calls :: "action list \<Rightarrow> (pystr \<times> pystr \<times> nat) list" where
  "publish_calls [] = []"
| "publish_calls (RabbitPublish t p q # as) = (t, p, q) # publish_calls as"
| "publish_calls (a # as) = publish_calls as"

text \<open>The calls on the source client.\<close>

fun source_action :: "action \<Rightarrow> bool" where
  "source_action (MosqConnect h p k) = True"
| "source_action (MosqSubscribe t) = True"
| "source_action MosqLoopForever = True"
| "source_action MosqDisconnect = True"
| "source_action a = False"

subsection \<open>Sample inputs\<close>

text \<open>
  A payload given as ASCII text; a message on the default topic as the default
  subscription delivers it (\<open>subscribe\<close> without a QoS asks for QoS 0); a \<open>publish\<close>
  that succeeds with a given message identifier, one that fails with a given return code,
  and one that raises.
\<close>

definition ascii :: "string \<Rightarrow> byte list" where
  "ascii s = map of_char s"

definition scan_msg :: "byte list \<Rightarrow> mqtt_message" where
  "scan_msg bs = \<lparr>topic = py ''rfid/scan'', payload = bs, qos = 0\<rparr>"

definition accepts :: "int \<Rightarrow> pystr \<Rightarrow> pystr \<Rightarrow> nat \<Rightarrow> exn + message_info" where
  "accepts m t p q = Inr \<lparr>rc = MQTT_ERR_SUCCESS, mid = m\<rparr>"

definition fails :: "int \<Rightarrow> pystr \<Rightarrow> pystr \<Rightarrow> nat \<Rightarrow> exn + message_info" where
  "fails r t p q = Inr \<lparr>rc = r, mid = 0\<rparr>"

definition raises :: "exn \<Rightarrow> pystr \<Rightarrow> pystr \<Rightarrow> nat \<Rightarrow> exn + message_info" where
  "raises e t p q = Inl e"

text \<open>What \<open>_connect_rabbitmq\<close> does when the connection is made.\<close>

definition connected :: "config \<Rightarrow> action list" where
  "connected cfg =
     [RabbitConnect (RABBITMQ_HOST cfg) (RABBITMQ_PORT cfg) 60, RabbitLoopStart,
      Log INFO (ConnectedRabbitMQ (RABBITMQ_HOST cfg) (RABBITMQ_PORT cfg))]"

text \<open>
  An interpreter with the defaults of CPython: recursion limit 1000, digit limit 4300.
\<close>

definition cpython :: interpreter where
  "cpython = \<lparr>recursion_room = 1000, max_str_digits = 4300\<rparr>"

text \<open>
  Runs of the program: the destination's \<open>connect\<close> raises \<open>OSError\<close>; the source's
  \<open>connect\<close> raises; the source broker answers the connection request with return code 5
  (not authorised) and the user interrupts; the destination broker answers with return
  code 5 while the source accepts, and the user interrupts; the relay is connected and
  interrupted; a message whose publish fails, then the interrupt, then another message; a
  message that is not UTF-8 followed by a well-formed one.
\<close>

definition startup_failure :: world where
  "startup_failure =
     \<lparr>rabbitmq_connect = Some OSError, rabbitmq_connack = 0, mosquitto_connect = None,
      events = []\<rparr>"

definition source_failure :: "exn \<Rightarrow> world" where
  "source_failure e =
     \<lparr>rabbitmq_connect = None, rabbitmq_connack = 0, mosquitto_connect = Some e,
      events = []\<rparr>"

definition refused :: world where
  "refused =
     \<lparr>rabbitmq_connect = None, rabbitmq_connack = 0, mosquitto_connect = None,
      events = [Connack 5 None, CtrlC]\<rparr>"

definition destination_refused :: world where
  "destination_refused =
     \<lparr>rabbitmq_connect = None, rabbitmq_connack = 5, mosquitto_connect = None,
      events = [Connack 0 None, CtrlC]\<rparr>"

definition interrupted :: world where
  "interrupted =
     \<lparr>rabbitmq_connect = None, rabbitmq_connack = 0, mosquitto_connect = None,
      events = [Connack 0 None, CtrlC]\<rparr>"

definition busy :: world where
  "busy =
     \<lparr>rabbitmq_connect = None, rabbitmq_connack = 0, mosquitto_connect = None,
      events = [Connack 0 None, Message (scan_msg (ascii ''{\"x\":1}'')) (fails 4), CtrlC,
                Message (scan_msg (ascii ''{\"tag_id\":\"A1\"}'')) (accepts 2)]\<rparr>"

definition poisoned :: world where
  "poisoned =
     \<lparr>rabbitmq_connect = None, rabbitmq_connack = 0, mosquitto_connect = None,
      events = [Connack 0 None, Message (scan_msg [0xFF]) (accepts 1),
                Message (scan_msg (ascii ''{\"tag_id\":\"A1\"}'')) (accepts 2)]\<rparr>"

section \<open>Properties\<close>

subsection \<open>Decoding and encoding UTF-8 give the bytes back\<close>

text \<open>Quotient and remainder of a sum of shifted six-bit groups.\<close>

lemma div_mod_group: fixes q r k :: nat assumes "r < k" shows "(q * k + r) div k = q" "(q * k + r) mod k = r"
  using assms by simp_all

lemma groups3: fixes a c d :: nat assumes "c < 64" "d < 64"
  shows "(a * 4096 + c * 64 + d) div 4096 = a"
        "(a * 4096 + c * 64 + d) div 64 mod 64 = c"
        "(a * 4096 + c * 64 + d) mod 64 = d"
proof -
  have r: "c * 64 + d < 4096" using assms by linarith
  have e1: "a * 4096 + c * 64 + d = a * 4096 + (c * 64 + d)" by linarith
  have e2: "a * 4096 + c * 64 + d = (a * 64 + c) * 64 + d" by (simp add: algebra_simps)
  show "(a * 4096 + c * 64 + d) div 4096 = a" unfolding e1 by (rule div_mod_group(1)[OF r])
  show "(a * 4096 + c * 64 + d) mod 64 = d" unfolding e2 by (rule div_mod_group(2)[OF assms(2)])
  have "(a * 4096 + c * 64 + d) div 64 = a * 64 + c" unfolding e2 by (rule div_mod_group(1)[OF assms(2)])
  then show "(a * 4096 + c * 64 + d) div 64 mod 64 = c" using div_mod_group(2)[OF assms(1), of a] by simp
qed

lemma groups4: fixes a c d e :: nat assumes "c < 64" "d < 64" "e < 64"
  shows "(a * 262144 + c * 4096 + d * 64 + e) div 262144 = a"
        "(a * 262144 + c * 4096 + d * 64 + e) div 4096 mod 64 = c"
        "(a * 262144 + c * 4096 + d * 64 + e) div 64 mod 64 = d"
        "(a * 262144 + c * 4096 + d * 64 + e) mod 64 = e"
proof -
  let ?n = "a * 262144 + c * 4096 + d * 64 + e"
  have r1: "c * 4096 + d * 64 + e < 262144" using assms by linarith
  have r2: "d * 64 + e < 4096" using assms by linarith
  have e1: "?n = a * 262144 + (c * 4096 + d * 64 + e)" by linarith
  have e2: "?n = (a * 64 + c) * 4096 + (d * 64 + e)" by (simp add: algebra_simps)
  have e3: "?n = (a * 4096 + c * 64 + d) * 64 + e" by (simp add: algebra_simps)
  show "?n div 262144 = a" unfolding e1 by (rule div_mod_group(1)[OF r1])
  show "?n mod 64 = e" unfolding e3 by (rule div_mod_group(2)[OF assms(3)])
  have "?n div 4096 = a * 64 + c" unfolding e2 by (rule div_mod_group(1)[OF r2])
  then show "?n div 4096 mod 64 = c" using div_mod_group(2)[OF assms(1), of a] by simp
  have "?n div 64 = a * 4096 + c * 64 + d" unfolding e3 by (rule div_mod_group(1)[OF assms(3)])
  then show "?n div 64 mod 64 = d" using groups3(3)[OF assms(1) assms(2), of a] by simp
qed

lemma range4: fixes a c d e :: nat
  assumes "a < 5" "a = 0 \<longrightarrow> 16 \<le> c" "a = 4 \<longrightarrow> c < 16" "c < 64" "d < 64" "e < 64"
  shows "\<not> a * 262144 + c * 4096 + d * 64 + e < 0x10000"
        "a * 262144 + c * 4096 + d * 64 + e < 0x110000"
proof -
  show "\<not> a * 262144 + c * 4096 + d * 64 + e < 0x10000"
  proof (cases "a = 0")
    case True then show ?thesis using assms by simp
  next
    case False then have "1 \<le> a" by simp
    then show ?thesis by linarith
  qed
  show "a * 262144 + c * 4096 + d * 64 + e < 0x110000"
  proof (cases "a = 4")
    case True then show ?thesis using assms by simp
  next
    case False then have "a \<le> 3" using assms by simp
    then show ?thesis using assms by linarith
  qed
qed


lemma range3: fixes a c d :: nat assumes "a < 16" "a = 0 \<longrightarrow> 32 \<le> c" "a = 13 \<longrightarrow> c < 32" "c < 64" "d < 64"
  shows "\<not> a * 4096 + c * 64 + d < 0x800" "a * 4096 + c * 64 + d < 0x10000"
   "\<not> (0xD800 \<le> a * 4096 + c * 64 + d \<and> a * 4096 + c * 64 + d \<le> 0xDFFF)"
proof -
  show "\<not> a * 4096 + c * 64 + d < 0x800"
  proof (cases "a = 0")
    case True then show ?thesis using assms by simp
  next
    case False then have "1 \<le> a" by simp
    then show ?thesis by linarith
  qed
  show "a * 4096 + c * 64 + d < 0x10000" using assms by linarith
  consider "a \<le> 12" | "a = 13" | "14 \<le> a" by linarith
  then show "\<not> (0xD800 \<le> a * 4096 + c * 64 + d \<and> a * 4096 + c * 64 + d \<le> 0xDFFF)"
  proof cases
    case 1 then show ?thesis using assms by linarith
  next
    case 2 then show ?thesis using assms by simp
  next
    case 3 then show ?thesis using assms by linarith
  qed
qed

lemma cont_cases: assumes "cont b"
  obtains c where "c < 64" "b = of_nat (0x80 + c)" "lo2 b = c" "unat b = 0x80 + c"
proof -
  have "unat b - 0x80 < 64" using assms by (auto simp: cont_def)
  moreover have "b = of_nat (0x80 + (unat b - 0x80))" using assms by (simp add: cont_def)
  moreover have "unat b = 0x80 + (unat b - 0x80)" using assms by (simp add: cont_def)
  ultimately show ?thesis using that[of "unat b - 0x80"] by (simp add: lo2_def)
qed

lemma lead_cases: assumes "k \<le> unat b" obtains a where "unat b = k + a" "b = of_nat (k + a)"
proof -
  have "unat b = k + (unat b - k)" using assms by simp
  moreover have "b = of_nat (k + (unat b - k))" using assms by simp
  ultimately show ?thesis using that by blast
qed

lemma encode_one: "unat b0 < 0x80 \<Longrightarrow> utf8_encode_cp (unat b0) = Some [b0]"
  by (simp add: utf8_encode_cp_def)

lemma encode_two: assumes "0xC2 \<le> unat b0" "unat b0 \<le> 0xDF" "cont b1"
  shows "utf8_encode_cp ((unat b0 - 0xC0) * 64 + lo2 b1) = Some [b0, b1]"
proof -
  obtain c where c: "c < 64" "b1 = of_nat (0x80 + c)" "lo2 b1 = c" using assms(3) by (rule cont_cases)
  obtain a where a: "unat b0 = 0xC0 + a" "b0 = of_nat (0xC0 + a)"
    using lead_cases[of "0xC0" b0] assms(1) by auto
  have ra: "2 \<le> a" "a < 32" using assms a by auto
  define n where "n = a * 64 + c"
  have l: "\<not> n < 0x80" "n < 0x800" using ra c(1) unfolding n_def by linarith+
  have dm: "n div 64 = a" "n mod 64 = c" unfolding n_def using div_mod_group[OF c(1), of a] by simp_all
  have "utf8_encode_cp n = Some [b0, b1]"
    unfolding utf8_encode_cp_def using l by (simp add: dm a(2) c(2))
  then show ?thesis by (simp add: n_def a(1) c(3))
qed

lemma encode_three: assumes "0xE0 \<le> unat b0" "unat b0 \<le> 0xEF" "cont b1" "cont b2"
   "unat b0 = 0xE0 \<longrightarrow> 0xA0 \<le> unat b1" "unat b0 = 0xED \<longrightarrow> unat b1 \<le> 0x9F"
  shows "utf8_encode_cp ((unat b0 - 0xE0) * 4096 + lo2 b1 * 64 + lo2 b2) = Some [b0, b1, b2]"
proof -
  obtain c where c: "c < 64" "b1 = of_nat (0x80 + c)" "lo2 b1 = c" "unat b1 = 0x80 + c"
    using assms(3) by (rule cont_cases)
  obtain d where d: "d < 64" "b2 = of_nat (0x80 + d)" "lo2 b2 = d" using assms(4) by (rule cont_cases)
  obtain a where a: "unat b0 = 0xE0 + a" "b0 = of_nat (0xE0 + a)"
    using lead_cases[of "0xE0" b0] assms(1) by auto
  have ra: "a < 16" "a = 0 \<longrightarrow> 32 \<le> c" "a = 13 \<longrightarrow> c < 32" using assms a c(4) by auto
  define n where "n = a * 4096 + c * 64 + d"
  have l: "\<not> n < 0x800" "n < 0x10000" "\<not> (0xD800 \<le> n \<and> n \<le> 0xDFFF)"
    unfolding n_def using range3[OF ra c(1) d(1)] by blast+
  have l0: "\<not> n < 0x80" using l(1) by linarith
  have dm: "n div 4096 = a" "n div 64 mod 64 = c" "n mod 64 = d"
    unfolding n_def using groups3[OF c(1) d(1), of a] by blast+
  have "utf8_encode_cp n = Some [b0, b1, b2]"
    unfolding utf8_encode_cp_def using l l0 by (simp add: dm a(2) c(2) d(2))
  then show ?thesis by (simp add: n_def a(1) c(3) d(3))
qed

lemma encode_four: assumes "0xF0 \<le> unat b0" "unat b0 \<le> 0xF4" "cont b1" "cont b2" "cont b3"
   "unat b0 = 0xF0 \<longrightarrow> 0x90 \<le> unat b1" "unat b0 = 0xF4 \<longrightarrow> unat b1 \<le> 0x8F"
  shows "utf8_encode_cp ((unat b0 - 0xF0) * 262144 + lo2 b1 * 4096 + lo2 b2 * 64 + lo2 b3)
         = Some [b0, b1, b2, b3]"
proof -
  obtain c where c: "c < 64" "b1 = of_nat (0x80 + c)" "lo2 b1 = c" "unat b1 = 0x80 + c"
    using assms(3) by (rule cont_cases)
  obtain d where d: "d < 64" "b2 = of_nat (0x80 + d)" "lo2 b2 = d" using assms(4) by (rule cont_cases)
  obtain e where e: "e < 64" "b3 = of_nat (0x80 + e)" "lo2 b3 = e" using assms(5) by (rule cont_cases)
  obtain a where a: "unat b0 = 0xF0 + a" "b0 = of_nat (0xF0 + a)"
    using lead_cases[of "0xF0" b0] assms(1) by auto
  have ra: "a < 5" "a = 0 \<longrightarrow> 16 \<le> c" "a = 4 \<longrightarrow> c < 16" using assms a c(4) by auto
  define n where "n = a * 262144 + c * 4096 + d * 64 + e"
  have l: "\<not> n < 0x10000" "n < 0x110000"
    unfolding n_def using range4[OF ra c(1) d(1) e(1)] by blast+
  have l0: "\<not> n < 0x80" "\<not> n < 0x800" using l(1) by linarith+
  have dm: "n div 262144 = a" "n div 4096 mod 64 = c" "n div 64 mod 64 = d" "n mod 64 = e"
    unfolding n_def using groups4[OF c(1) d(1) e(1), of a] by blast+
  have "utf8_encode_cp n = Some [b0, b1, b2, b3]"
    unfolding utf8_encode_cp_def using l l0 by (simp add: dm a(2) c(2) d(2) e(2))
  then show ?thesis by (simp add: n_def a(1) c(3) d(3) e(3))
qed



lemma utf8_encode_Cons:
  "utf8_encode_cp c = Some e \<Longrightarrow> utf8_encode t = Some r \<Longrightarrow> utf8_encode (c # t) = Some (e @ r)"
  by simp

lemma utf8_decode_step:
  assumes "utf8_decode (b0 # bs) = Some s"
  shows "\<exists>c t e r. s = c # t \<and> b0 # bs = e @ r \<and> length r < length (b0 # bs)
           \<and> utf8_decode r = Some t \<and> utf8_encode_cp c = Some e"
proof -
  consider (one) "unat b0 < 0x80"
    | (two) "\<not> unat b0 < 0x80" "0xC2 \<le> unat b0 \<and> unat b0 \<le> 0xDF"
    | (three) "\<not> unat b0 < 0x80" "\<not> (0xC2 \<le> unat b0 \<and> unat b0 \<le> 0xDF)"
              "0xE0 \<le> unat b0 \<and> unat b0 \<le> 0xEF"
    | (four) "\<not> unat b0 < 0x80" "\<not> (0xC2 \<le> unat b0 \<and> unat b0 \<le> 0xDF)"
              "\<not> (0xE0 \<le> unat b0 \<and> unat b0 \<le> 0xEF)" "0xF0 \<le> unat b0 \<and> unat b0 \<le> 0xF4"
    | (bad) "\<not> unat b0 < 0x80" "\<not> (0xC2 \<le> unat b0 \<and> unat b0 \<le> 0xDF)"
              "\<not> (0xE0 \<le> unat b0 \<and> unat b0 \<le> 0xEF)" "\<not> (0xF0 \<le> unat b0 \<and> unat b0 \<le> 0xF4)"
    by blast
  then show ?thesis
  proof cases
    case one
    then obtain t where t: "utf8_decode bs = Some t" "s = unat b0 # t"
      using assms by auto
    show ?thesis using t encode_one[OF one] by (intro exI[of _ "unat b0"] exI[of _ t] exI[of _ "[b0]"] exI[of _ bs]) simp
  next
    case two
    have eq: "utf8_decode (b0 # bs) = (case bs of
           b1 # r \<Rightarrow>
             if cont b1
             then map_option ((#) ((unat b0 - 0xC0) * 64 + lo2 b1)) (utf8_decode r)
             else None
         | _ \<Rightarrow> None)" using two by (simp only: utf8_decode.simps if_True if_False simp_thms)
    have d: "(case bs of
           b1 # r \<Rightarrow>
             if cont b1
             then map_option ((#) ((unat b0 - 0xC0) * 64 + lo2 b1)) (utf8_decode r)
             else None
         | _ \<Rightarrow> None) = Some s" using assms unfolding eq .
    obtain b1 r where bs: "bs = b1 # r" using d by (cases bs) simp_all
    have c: "cont b1" using d unfolding bs by (simp split: if_splits)
    obtain t where t: "utf8_decode r = Some t" "s = ((unat b0 - 0xC0) * 64 + lo2 b1) # t"
      using d c unfolding bs by auto
    show ?thesis using t encode_two[OF two(2)[THEN conjunct1] two(2)[THEN conjunct2] c] bs
      by (intro exI[of _ "(unat b0 - 0xC0) * 64 + lo2 b1"] exI[of _ t] exI[of _ "[b0, b1]"] exI[of _ r]) simp
  next
    case three
    have eq: "utf8_decode (b0 # bs) = (case bs of
           b1 # b2 # r \<Rightarrow>
             if cont b1 \<and> cont b2
                \<and> (unat b0 = 0xE0 \<longrightarrow> 0xA0 \<le> unat b1)
                \<and> (unat b0 = 0xED \<longrightarrow> unat b1 \<le> 0x9F)
             then map_option
                    ((#) ((unat b0 - 0xE0) * 4096 + lo2 b1 * 64 + lo2 b2)) (utf8_decode r)
             else None
         | _ \<Rightarrow> None)" using three by (simp only: utf8_decode.simps if_True if_False simp_thms)
    have d: "(case bs of
           b1 # b2 # r \<Rightarrow>
             if cont b1 \<and> cont b2
                \<and> (unat b0 = 0xE0 \<longrightarrow> 0xA0 \<le> unat b1)
                \<and> (unat b0 = 0xED \<longrightarrow> unat b1 \<le> 0x9F)
             then map_option
                    ((#) ((unat b0 - 0xE0) * 4096 + lo2 b1 * 64 + lo2 b2)) (utf8_decode r)
             else None
         | _ \<Rightarrow> None) = Some s" using assms unfolding eq .
    obtain b1 b2 r where bs: "bs = b1 # b2 # r"
      using d by (auto split: list.splits)
    have c: "cont b1" "cont b2" "unat b0 = 0xE0 \<longrightarrow> 0xA0 \<le> unat b1"
        "unat b0 = 0xED \<longrightarrow> unat b1 \<le> 0x9F"
      using d unfolding bs by (simp_all split: if_splits)
    obtain t where t: "utf8_decode r = Some t"
        "s = ((unat b0 - 0xE0) * 4096 + lo2 b1 * 64 + lo2 b2) # t"
      using d c unfolding bs by auto
    show ?thesis
      using t encode_three[OF three(3)[THEN conjunct1] three(3)[THEN conjunct2] c] bs
      by (intro exI[of _ "(unat b0 - 0xE0) * 4096 + lo2 b1 * 64 + lo2 b2"] exI[of _ t]
            exI[of _ "[b0, b1, b2]"] exI[of _ r]) simp
  next
    case four
    have eq: "utf8_decode (b0 # bs) = (case bs of
           b1 # b2 # b3 # r \<Rightarrow>
             if cont b1 \<and> cont b2 \<and> cont b3
                \<and> (unat b0 = 0xF0 \<longrightarrow> 0x90 \<le> unat b1)
                \<and> (unat b0 = 0xF4 \<longrightarrow> unat b1 \<le> 0x8F)
             then map_option
                    ((#) ((unat b0 - 0xF0) * 262144 + lo2 b1 * 4096 + lo2 b2 * 64 + lo2 b3))
                    (utf8_decode r)
             else None
         | _ \<Rightarrow> None)" using four by (simp only: utf8_decode.simps if_True if_False simp_thms)
    have d: "(case bs of
           b1 # b2 # b3 # r \<Rightarrow>
             if cont b1 \<and> cont b2 \<and> cont b3
                \<and> (unat b0 = 0xF0 \<longrightarrow> 0x90 \<le> unat b1)
                \<and> (unat b0 = 0xF4 \<longrightarrow> unat b1 \<le> 0x8F)
             then map_option
                    ((#) ((unat b0 - 0xF0) * 262144 + lo2 b1 * 4096 + lo2 b2 * 64 + lo2 b3))
                    (utf8_decode r)
             else None
         | _ \<Rightarrow> None) = Some s" using assms unfolding eq .
    obtain b1 b2 b3 r where bs: "bs = b1 # b2 # b3 # r"
      using d by (auto split: list.splits)
    have c: "cont b1" "cont b2" "cont b3" "unat b0 = 0xF0 \<longrightarrow> 0x90 \<le> unat b1"
        "unat b0 = 0xF4 \<longrightarrow> unat b1 \<le> 0x8F"
      using d unfolding bs by (simp_all split: if_splits)
    obtain t where t: "utf8_decode r = Some t"
        "s = ((unat b0 - 0xF0) * 262144 + lo2 b1 * 4096 + lo2 b2 * 64 + lo2 b3) # t"
      using d c unfolding bs by auto
    have e: "utf8_encode_cp ((unat b0 - 0xF0) * 262144 + lo2 b1 * 4096 + lo2 b2 * 64 + lo2 b3)
               = Some [b0, b1, b2, b3]"
      by (rule encode_four[OF four(4)[THEN conjunct1] four(4)[THEN conjunct2] c])
    have a: "b0 # bs = [b0, b1, b2, b3] @ r" "length r < length (b0 # bs)"
      unfolding bs by simp_all
    show ?thesis using t(2) a t(1) e by blast
  next
    case bad
    then have n: "utf8_decode (b0 # bs) = None"
      by (simp only: utf8_decode.simps if_True if_False simp_thms)
    show ?thesis using assms unfolding n by simp
  qed
qed

lemma utf8_roundtrip: "utf8_decode bs = Some s \<Longrightarrow> utf8_encode s = Some bs"
proof (induction "length bs" arbitrary: bs s rule: less_induct)
  case less
  show ?case
  proof (cases bs)
    case Nil
    then show ?thesis using less.prems by simp
  next
    case (Cons b0 bs')
    obtain c t e r where st: "s = c # t" "b0 # bs' = e @ r" "length r < length (b0 # bs')"
        "utf8_decode r = Some t" "utf8_encode_cp c = Some e"
      using utf8_decode_step[of b0 bs' s] less.prems Cons by blast
    have "utf8_encode t = Some r" using less.hyps[of r t] st(3,4) Cons by simp
    then have "utf8_encode (c # t) = Some (e @ r)" using st(5) by (rule utf8_encode_Cons[rotated])
    then show ?thesis using st(1,2) Cons by simp
  qed
qed

subsection \<open>The JSON decoder: progress, fuel, errors\<close>

text \<open>
  Every scanner that succeeds consumes text, so the fuel \<open>json_loads\<close> starts with is
  never exhausted, and the exceptions \<open>json_loads\<close> raises are \<open>JSONDecodeError\<close>,
  \<open>RecursionError\<close> and \<open>ValueError\<close>. The \<open>try\<close> statement of \<open>on_message\<close>
  therefore completes, or raises \<open>TypeError\<close>, which it does exactly when the payload
  is JSON for \<open>null\<close>, a truth value or a number, or passes on the
  \<open>RecursionError\<close> or the \<open>ValueError\<close> of \<open>json_loads\<close>.
\<close>

lemma length_skip_ws: "length (skip_ws s) \<le> length s"
  by (simp add: skip_ws_def length_dropWhile_le)

lemma decode_uXXXX_shorter: "decode_uXXXX s = Some (v, t) \<Longrightarrow> length t < length s"
  by (auto simp: decode_uXXXX_def split: list.splits option.splits prod.splits)

lemma scan_escape_shorter:
  assumes "scan_escape s = Some (ch, r)"
  shows "length r < length s"
proof (cases s)
  case Nil
  then show ?thesis using assms by (simp add: scan_escape_def)
next
  case (Cons e r')
  show ?thesis
  proof (cases "e = 0x75")
    case False
    then show ?thesis using assms Cons by (auto simp: scan_escape_def)
  next
    case True
    obtain uni r1 where d1: "decode_uXXXX r' = Some (uni, r1)"
      using assms Cons True by (auto simp: scan_escape_def split: option.splits)
    have l1: "length r1 < length r'" using decode_uXXXX_shorter[OF d1] .
    show ?thesis
    proof (cases "0xD800 \<le> uni \<and> uni \<le> 0xDBFF \<and> take 2 r1 = [0x5C, 0x75]")
      case False
      then have "r = r1" using assms Cons True d1 by (auto simp: scan_escape_def)
      then show ?thesis using l1 Cons by simp
    next
      case hi: True
      obtain uni2 r2 where d2: "decode_uXXXX (drop 2 r1) = Some (uni2, r2)"
        using assms Cons True d1 hi by (auto simp: scan_escape_def split: option.splits)
      have l2: "length r2 < length r1" using decode_uXXXX_shorter[OF d2] by simp
      have "r = r2 \<or> r = r1"
        using assms Cons True d1 hi d2 by (auto simp: scan_escape_def split: if_splits)
      then show ?thesis using l1 l2 Cons by auto
    qed
  qed
qed

lemma map_apfst_Some:
  "map_option (apfst f) x = Some (a, b) \<Longrightarrow> \<exists>c. x = Some (c, b)"
  by (cases x) auto

lemma scanstring_shorter: "scanstring s = Some (str, r) \<Longrightarrow> length r < length s"
proof (induction s arbitrary: str r rule: scanstring.induct)
  case 1
  then show ?case by simp
next
  case (2 c cs)
  consider (quote) "c = 0x22" | (esc) "c \<noteq> 0x22" "c = 0x5C"
    | (plain) "c \<noteq> 0x22" "c \<noteq> 0x5C"
    by blast
  then show ?case
  proof cases
    case quote
    then show ?thesis using "2.prems" by simp
  next
    case esc
    obtain ch r1 where e: "scan_escape cs = Some (ch, r1)"
      using "2.prems" esc by (auto split: option.splits)
    obtain str' where s: "scanstring r1 = Some (str', r)"
      using "2.prems" esc e by (auto dest: map_apfst_Some)
    have "length r < length r1" using "2.IH"(1)[OF esc e refl s] .
    then show ?thesis using scan_escape_shorter[OF e] by simp
  next
    case plain
    have n: "\<not> c < 0x20" using "2.prems" plain by (auto split: if_splits)
    obtain str' where s: "scanstring cs = Some (str', r)"
      using "2.prems" plain n by (auto dest: map_apfst_Some)
    have "length r < length cs" using "2.IH"(2)[OF plain n s] .
    then show ?thesis by simp
  qed
qed

lemma literal_shorter: "lit \<noteq> [] \<Longrightarrow> literal lit s = Some r \<Longrightarrow> length r < length s"
  by (cases s) (auto simp: literal_def py_def split: if_splits)

lemma match_int_shorter: "match_int s = Some (i, r) \<Longrightarrow> length r < length s"
  by (auto simp: match_int_def split: list.splits if_splits
      intro: le_imp_less_Suc length_dropWhile_le)

lemma match_frac_shorter: "match_frac s = (f, r) \<Longrightarrow> length r \<le> length s"
  by (auto simp: match_frac_def split: list.splits if_splits
      intro: le_SucI length_dropWhile_le)

lemma match_exp_shorter: "match_exp s = (e, r) \<Longrightarrow> length r \<le> length s"
  by (auto simp: match_exp_def split: list.splits if_splits
      intro: le_SucI length_dropWhile_le)

lemma match_number_shorter: "match_number s = Some (num, r) \<Longrightarrow> length r < length s"
proof -
  assume a: "match_number s = Some (num, r)"
  then obtain i r1 where i: "(case s of
              c # r \<Rightarrow> if c = 0x2D then map_option (apfst ((#) c)) (match_int r)
                       else match_int s
            | [] \<Rightarrow> None) = Some (i, r1)"
    by (auto simp: match_number_def split: option.splits)
  have l1: "length r1 < length s"
    using i by (auto split: list.splits if_splits dest: match_int_shorter)
  obtain f r2 where f: "match_frac r1 = (f, r2)" by (cases "match_frac r1")
  obtain e r3 where e: "match_exp r2 = (e, r3)" by (cases "match_exp r2")
  have "r = r3" using a i f e by (simp add: match_number_def)
  then show ?thesis using l1 match_frac_shorter[OF f] match_exp_shorter[OF e] by simp
qed


lemma scan_atom_shorter: "scan_atom m s = Inr (v, r) \<Longrightarrow> length r < length s"
  unfolding scan_atom_def
  by (auto split: option.splits if_splits dest: match_number_shorter literal_shorter[rotated])

lemma scan_atom_fuel: "scan_atom m s \<noteq> Inl OutOfFuel"
  unfolding scan_atom_def by (auto split: option.splits)

lemma skip_ws_Cons_shorter: "skip_ws s = d # r \<Longrightarrow> length r < length s"
  using length_skip_ws[of s] by simp

lemma scan_once_Suc_shorter:
  assumes po: "\<And>ps s v r room. parse_object n room m ps s = Inr (v, r) \<Longrightarrow>
      length r < length s"
    and pa: "\<And>vs s v r room. parse_array n room m vs s = Inr (v, r) \<Longrightarrow>
        length r < length s"
    and a: "scan_once (Suc n) room m s = Inr (v, r)"
  shows "length r < length s"
proof (cases s)
  case Nil
  then show ?thesis using a by simp
next
  case (Cons c t)
  consider (str) "c = 0x22" | (obj) "c \<noteq> 0x22" "c = 0x7B"
    | (arr) "c \<noteq> 0x22" "c \<noteq> 0x7B" "c = 0x5B"
    | (atom) "c \<noteq> 0x22" "c \<noteq> 0x7B" "c \<noteq> 0x5B"
    by blast
  then show ?thesis
  proof cases
    case str
    then obtain x where "scanstring t = Some (x, r)"
      using a Cons by (auto split: option.splits)
    then show ?thesis using scanstring_shorter Cons by fastforce
  next
    case obj
    obtain d r1 where w: "skip_ws t = d # r1"
      using a Cons obj by (auto split: list.splits if_splits)
    have l: "length r1 < length t" using skip_ws_Cons_shorter[OF w] .
    have "r = r1 \<or> parse_object n (room - 1) m [] r1 = Inr (v, r)"
      using a Cons obj w by (auto split: if_splits)
    then show ?thesis using po[of "room - 1" "[]" r1 v r] l Cons by auto
  next
    case arr
    obtain d r1 where w: "skip_ws t = d # r1"
      using a Cons arr by (auto split: list.splits if_splits)
    have l: "length r1 < length t" using skip_ws_Cons_shorter[OF w] .
    have "r = r1 \<or> parse_array n (room - 1) m [] (d # r1) = Inr (v, r)"
      using a Cons arr w by (auto split: if_splits)
    then show ?thesis using pa[of "room - 1" "[]" "d # r1" v r] l Cons by auto
  next
    case atom
    then have "scan_atom m s = Inr (v, r)" using a Cons by simp
    then show ?thesis by (rule scan_atom_shorter)
  qed
qed

lemma parse_array_Suc_shorter:
  assumes so: "\<And>s v r room. scan_once n room m s = Inr (v, r) \<Longrightarrow>
      length r < length s"
    and pa: "\<And>vs s v r room. parse_array n room m vs s = Inr (v, r) \<Longrightarrow>
        length r < length s"
    and a: "parse_array (Suc n) room m vs s = Inr (v, r)"
  shows "length r < length s"
proof -
  obtain v1 r0 where s1: "scan_once n room m s = Inr (v1, r0)"
    using a by (auto split: sum.splits)
  have l0: "length r0 < length s" using so[OF s1] .
  obtain d r1 where w: "skip_ws r0 = d # r1"
    using a s1 by (auto split: list.splits)
  have l1: "length r1 < length r0" using skip_ws_Cons_shorter[OF w] .
  have "r = r1 \<or> parse_array n room m (vs @ [v1]) (skip_ws r1) = Inr (v, r)"
    using a s1 w by (auto split: if_splits)
  then show ?thesis
    using pa[of room "vs @ [v1]" "skip_ws r1" v r] l0 l1 length_skip_ws[of r1] by auto
qed

lemma parse_object_Suc_shorter:
  assumes so: "\<And>s v r room. scan_once n room m s = Inr (v, r) \<Longrightarrow>
      length r < length s"
    and po: "\<And>ps s v r room. parse_object n room m ps s = Inr (v, r) \<Longrightarrow>
        length r < length s"
    and a: "parse_object (Suc n) room m ps s = Inr (v, r)"
  shows "length r < length s"
proof -
  obtain key r0 where k: "scanstring s = Some (key, r0)"
    using a by (auto split: option.splits)
  have l0: "length r0 < length s" using scanstring_shorter[OF k] .
  obtain c r1 where w1: "skip_ws r0 = c # r1"
    using a k by (auto split: list.splits)
  have l1: "length r1 < length r0" using skip_ws_Cons_shorter[OF w1] .
  have c: "c = 0x3A" using a k w1 by (auto split: if_splits)
  obtain v1 r2 where s1: "scan_once n room m (skip_ws r1) = Inr (v1, r2)"
    using a k w1 c by (auto split: sum.splits)
  have l2: "length r2 < length r1" using so[OF s1] length_skip_ws[of r1] by simp
  obtain d r3 where w3: "skip_ws r2 = d # r3"
    using a k w1 c s1 by (auto split: list.splits)
  have l3: "length r3 < length r2" using skip_ws_Cons_shorter[OF w3] .
  show ?thesis
  proof (cases "d = 0x7D")
    case True
    then have "r = r3" using a k w1 c s1 w3 by simp
    then show ?thesis using l0 l1 l2 l3 by simp
  next
    case False
    then have d: "d = 0x2C" using a k w1 c s1 w3 by (auto split: if_splits)
    obtain q r4 where w4: "skip_ws r3 = q # r4"
      using a k w1 c s1 w3 d by (auto split: list.splits)
    have l4: "length r4 < length r3" using skip_ws_Cons_shorter[OF w4] .
    have "parse_object n room m (ps @ [(key, v1)]) r4 = Inr (v, r)"
      using a k w1 c s1 w3 d w4 by (auto split: if_splits)
    then show ?thesis using po[of room "ps @ [(key, v1)]" r4 v r] l0 l1 l2 l3 l4 by simp
  qed
qed

lemma scan_shorter:
  "(\<forall>s v r room. scan_once n room m s = Inr (v, r) \<longrightarrow> length r < length s)
   \<and> (\<forall>vs s v r room. parse_array n room m vs s = Inr (v, r) \<longrightarrow>
       length r < length s)
   \<and> (\<forall>ps s v r room. parse_object n room m ps s = Inr (v, r) \<longrightarrow>
       length r < length s)"
proof (induction n)
  case 0
  show ?case by simp
next
  case (Suc n)
  have so: "\<And>s v r room. scan_once n room m s = Inr (v, r) \<Longrightarrow>
      length r < length s"
    and pa: "\<And>vs s v r room. parse_array n room m vs s = Inr (v, r) \<Longrightarrow>
        length r < length s"
    and po: "\<And>ps s v r room. parse_object n room m ps s = Inr (v, r) \<Longrightarrow>
        length r < length s"
    using Suc by blast+
  show ?case
  proof (intro conjI allI impI)
    fix s v r room
    assume "scan_once (Suc n) room m s = Inr (v, r)"
    with po pa show "length r < length s"
      by (rule scan_once_Suc_shorter[where n = n])
  next
    fix vs s v r room
    assume "parse_array (Suc n) room m vs s = Inr (v, r)"
    with so pa show "length r < length s"
      by (rule parse_array_Suc_shorter[where n = n])
  next
    fix ps s v r room
    assume "parse_object (Suc n) room m ps s = Inr (v, r)"
    with so po show "length r < length s"
      by (rule parse_object_Suc_shorter[where n = n])
  qed
qed

lemma scan_once_shorter: "scan_once n room m s = Inr (v, r) \<Longrightarrow> length r < length s"
  using scan_shorter[of n] by blast


lemma scan_once_Suc_fuel:
  assumes po: "\<And>ps s room. 2 * length s < n \<Longrightarrow>
      parse_object n room m ps s \<noteq> Inl OutOfFuel"
    and pa: "\<And>vs s room. 2 * length s + 1 < n \<Longrightarrow>
        parse_array n room m vs s \<noteq> Inl OutOfFuel"
    and b: "2 * length s < Suc n"
  shows "scan_once (Suc n) room m s \<noteq> Inl OutOfFuel"
proof (cases s)
  case Nil
  then show ?thesis by simp
next
  case (Cons c t)
  consider (str) "c = 0x22" | (obj) "c \<noteq> 0x22" "c = 0x7B"
    | (arr) "c \<noteq> 0x22" "c \<noteq> 0x7B" "c = 0x5B"
    | (atom) "c \<noteq> 0x22" "c \<noteq> 0x7B" "c \<noteq> 0x5B"
    by blast
  then show ?thesis
  proof cases
    case str
    then show ?thesis using Cons by (simp split: option.splits)
  next
    case obj
    show ?thesis
    proof (cases "skip_ws t")
      case Nil
      then show ?thesis using Cons obj by simp
    next
      case w: (Cons d r1)
      have "length r1 < length t" using skip_ws_Cons_shorter[OF w] .
      then have "2 * length r1 < n" using b Cons by simp
      then have "parse_object n (room - 1) m [] r1 \<noteq> Inl OutOfFuel" by (rule po)
      then show ?thesis using Cons obj w by simp
    qed
  next
    case arr
    show ?thesis
    proof (cases "skip_ws t")
      case Nil
      then show ?thesis using Cons arr by simp
    next
      case w: (Cons d r1)
      have "length (d # r1) \<le> length t" using length_skip_ws[of t] w by simp
      then have "2 * length (d # r1) + 1 < n" using b Cons by simp
      then have "parse_array n (room - 1) m [] (d # r1) \<noteq> Inl OutOfFuel" by (rule pa)
      then show ?thesis using Cons arr w by simp
    qed
  next
    case atom
    then show ?thesis using Cons scan_atom_fuel[of m s] by simp
  qed
qed

lemma parse_array_Suc_fuel:
  assumes so: "\<And>s room. 2 * length s < n \<Longrightarrow>
      scan_once n room m s \<noteq> Inl OutOfFuel"
    and pa: "\<And>vs s room. 2 * length s + 1 < n \<Longrightarrow>
        parse_array n room m vs s \<noteq> Inl OutOfFuel"
    and b: "2 * length s + 1 < Suc n"
  shows "parse_array (Suc n) room m vs s \<noteq> Inl OutOfFuel"
proof (cases "scan_once n room m s")
  case (Inl e)
  have "e \<noteq> OutOfFuel" using so[of s room] b Inl by simp
  then show ?thesis using Inl by simp
next
  case (Inr x)
  obtain v1 r0 where x: "x = (v1, r0)" by (cases x)
  have l0: "length r0 < length s" using scan_once_shorter Inr x by blast
  show ?thesis
  proof (cases "skip_ws r0")
    case Nil
    then show ?thesis using Inr x by simp
  next
    case w: (Cons d r1)
    have "length r1 < length r0" using skip_ws_Cons_shorter[OF w] .
    then have "2 * length (skip_ws r1) + 1 < n"
      using l0 b length_skip_ws[of r1] by simp
    then have "parse_array n room m (vs @ [v1]) (skip_ws r1) \<noteq> Inl OutOfFuel" by (rule pa)
    then show ?thesis using Inr x w by simp
  qed
qed

lemma parse_object_Suc_fuel:
  assumes so: "\<And>s room. 2 * length s < n \<Longrightarrow>
      scan_once n room m s \<noteq> Inl OutOfFuel"
    and po: "\<And>ps s room. 2 * length s < n \<Longrightarrow>
        parse_object n room m ps s \<noteq> Inl OutOfFuel"
    and b: "2 * length s < Suc n"
  shows "parse_object (Suc n) room m ps s \<noteq> Inl OutOfFuel"
proof (cases "scanstring s")
  case None
  then show ?thesis by simp
next
  case (Some x)
  obtain key r0 where x: "x = (key, r0)" by (cases x)
  have l0: "length r0 < length s" using scanstring_shorter Some x by blast
  show ?thesis
  proof (cases "skip_ws r0")
    case Nil
    then show ?thesis using Some x by simp
  next
    case w1: (Cons c r1)
    have l1: "length r1 < length r0" using skip_ws_Cons_shorter[OF w1] .
    have f1: "2 * length (skip_ws r1) < n" using l0 l1 b length_skip_ws[of r1] by simp
    show ?thesis
    proof (cases "scan_once n room m (skip_ws r1)")
      case (Inl e)
      have "e \<noteq> OutOfFuel" using so[OF f1, of room] Inl by simp
      then show ?thesis using Some x w1 Inl by simp
    next
      case (Inr y)
      obtain v1 r2 where y: "y = (v1, r2)" by (cases y)
      have l2: "length r2 < length (skip_ws r1)" using scan_once_shorter Inr y by blast
      show ?thesis
      proof (cases "skip_ws r2")
        case Nil
        then show ?thesis using Some x w1 Inr y by simp
      next
        case w3: (Cons d r3)
        have l3: "length r3 < length r2" using skip_ws_Cons_shorter[OF w3] .
        show ?thesis
        proof (cases "skip_ws r3")
          case Nil
          then show ?thesis using Some x w1 Inr y w3 by simp
        next
          case w4: (Cons q r4)
          have "length r4 < length r3" using skip_ws_Cons_shorter[OF w4] .
          then have "2 * length r4 < n" using l2 l3 f1 by simp
          then have "parse_object n room m (ps @ [(key, v1)]) r4 \<noteq> Inl OutOfFuel" by (rule po)
          then show ?thesis using Some x w1 Inr y w3 w4 by simp
        qed
      qed
    qed
  qed
qed

lemma scan_fuel:
  "(\<forall>s room. 2 * length s < n \<longrightarrow>
      scan_once n room m s \<noteq> Inl OutOfFuel)
   \<and> (\<forall>vs s room. 2 * length s + 1 < n \<longrightarrow>
       parse_array n room m vs s \<noteq> Inl OutOfFuel)
   \<and> (\<forall>ps s room. 2 * length s < n \<longrightarrow>
       parse_object n room m ps s \<noteq> Inl OutOfFuel)"
proof (induction n)
  case 0
  show ?case by simp
next
  case (Suc n)
  have so: "\<And>s room. 2 * length s < n \<Longrightarrow>
      scan_once n room m s \<noteq> Inl OutOfFuel"
    and pa: "\<And>vs s room. 2 * length s + 1 < n \<Longrightarrow>
        parse_array n room m vs s \<noteq> Inl OutOfFuel"
    and po: "\<And>ps s room. 2 * length s < n \<Longrightarrow>
        parse_object n room m ps s \<noteq> Inl OutOfFuel"
    using Suc by blast+
  show ?case
  proof (intro conjI allI impI)
    fix s :: pystr and room :: nat
    assume "2 * length s < Suc n"
    with po pa show "scan_once (Suc n) room m s \<noteq> Inl OutOfFuel"
      by (rule scan_once_Suc_fuel[where n = n])
  next
    fix vs and s :: pystr and room :: nat
    assume "2 * length s + 1 < Suc n"
    with so pa show "parse_array (Suc n) room m vs s \<noteq> Inl OutOfFuel"
      by (rule parse_array_Suc_fuel[where n = n])
  next
    fix ps and s :: pystr and room :: nat
    assume "2 * length s < Suc n"
    with so po show "parse_object (Suc n) room m ps s \<noteq> Inl OutOfFuel"
      by (rule parse_object_Suc_fuel[where n = n])
  qed
qed

lemma fuel_eq: "fuel s = 2 * length s + 1"
  by (induction s) simp_all

lemma json_loads_fuel: "json_loads ip s \<noteq> Inl OutOfFuel"
proof -
  have "2 * length (skip_ws s) < fuel s"
    using length_skip_ws[of s] by (simp add: fuel_eq)
  then have "scan_once (fuel s) (recursion_room ip) (max_str_digits ip) (skip_ws s)
               \<noteq> Inl OutOfFuel"
    using scan_fuel[of "fuel s" "max_str_digits ip"] by blast
  then show ?thesis
    by (auto simp: json_loads_def split: sum.splits)
qed

lemma scan_atom_error:
  "scan_atom m s = Inl e \<Longrightarrow>
      e \<in> {JSONDecodeError, RecursionError, ValueError, OutOfFuel}"
  unfolding scan_atom_def by (auto split: option.splits if_splits)

lemma scan_errors:
  "(\<forall>s e room. scan_once n room m s = Inl e \<longrightarrow>
      e \<in> {JSONDecodeError, RecursionError, ValueError, OutOfFuel})
   \<and> (\<forall>vs s e room. parse_array n room m vs s = Inl e \<longrightarrow>
      e \<in> {JSONDecodeError, RecursionError, ValueError, OutOfFuel})
   \<and> (\<forall>ps s e room. parse_object n room m ps s = Inl e \<longrightarrow>
      e \<in> {JSONDecodeError, RecursionError, ValueError, OutOfFuel})"
proof (induction n)
  case 0
  show ?case by simp
next
  case (Suc n)
  have so: "\<And>s e room. scan_once n room m s = Inl e \<Longrightarrow>
      e \<in> {JSONDecodeError, RecursionError, ValueError, OutOfFuel}"
    and pa: "\<And>vs s e room. parse_array n room m vs s = Inl e \<Longrightarrow>
      e \<in> {JSONDecodeError, RecursionError, ValueError, OutOfFuel}"
    and po: "\<And>ps s e room. parse_object n room m ps s = Inl e \<Longrightarrow>
      e \<in> {JSONDecodeError, RecursionError, ValueError, OutOfFuel}"
    using Suc by blast+
  show ?case
  proof (intro conjI allI impI)
    fix s e room
    assume "scan_once (Suc n) room m s = Inl e"
    then show "e \<in> {JSONDecodeError, RecursionError, ValueError, OutOfFuel}"
      by (auto split: list.splits option.splits if_splits dest: pa po scan_atom_error)
  next
    fix vs s e room
    assume "parse_array (Suc n) room m vs s = Inl e"
    then show "e \<in> {JSONDecodeError, RecursionError, ValueError, OutOfFuel}"
      by (auto split: list.splits sum.splits if_splits dest: so pa)
  next
    fix ps s e room
    assume "parse_object (Suc n) room m ps s = Inl e"
    then show "e \<in> {JSONDecodeError, RecursionError, ValueError, OutOfFuel}"
      by (auto split: list.splits option.splits sum.splits if_splits) (use so po in blast)+
  qed
qed

lemma json_loads_error:
  "json_loads ip s = Inl e \<Longrightarrow>
      e = JSONDecodeError \<or> e = RecursionError \<or> e = ValueError"
proof -
  assume a: "json_loads ip s = Inl e"
  have "e \<in> {JSONDecodeError, RecursionError, ValueError, OutOfFuel}"
    using a scan_errors[of "fuel s" "max_str_digits ip"]
    by (auto simp: json_loads_def split: if_splits sum.splits)
  then show ?thesis using json_loads_fuel[of ip s] a by auto
qed

lemma check_payload_raises:
  "snd (check_payload ip s) = None \<or> snd (check_payload ip s) = Some TypeError
   \<or> snd (check_payload ip s) = Some RecursionError
   \<or> snd (check_payload ip s) = Some ValueError"
proof (cases "json_loads ip s")
  case (Inl e)
  then show ?thesis using json_loads_error[OF Inl] by (auto simp add: check_payload_def)
next
  case (Inr v)
  then show ?thesis by (cases v) (simp_all add: check_payload_def)
qed

lemma check_payload_TypeError:
  "snd (check_payload ip s) = Some TypeError \<longleftrightarrow>
     (\<exists>v. json_loads ip s = Inr v
          \<and> (v = JNull \<or> (\<exists>b. v = JBool b) \<or> (\<exists>n. v = JNumber n)))"
proof (cases "json_loads ip s")
  case (Inl e)
  then show ?thesis using json_loads_error[OF Inl] by (auto simp add: check_payload_def)
next
  case (Inr v)
  then show ?thesis by (cases v) (simp_all add: check_payload_def)
qed

lemma check_payload_limits:
  "snd (check_payload ip s) = Some e \<Longrightarrow> e \<noteq> TypeError \<Longrightarrow>
   json_loads ip s = Inl e \<and> (e = RecursionError \<or> e = ValueError)"
proof (cases "json_loads ip s")
  case (Inl x)
  assume "snd (check_payload ip s) = Some e"
  then show ?thesis
    using Inl json_loads_error[OF Inl] by (auto simp add: check_payload_def split: if_splits)
next
  case (Inr v)
  assume "snd (check_payload ip s) = Some e" "e \<noteq> TypeError"
  then show ?thesis using Inr by (cases v) (simp_all add: check_payload_def)
qed

subsection \<open>What on\_message does, case by case\<close>

lemma publish_calls_append: "publish_calls (xs @ ys) = publish_calls xs @ publish_calls ys"
  by (induction xs rule: publish_calls.induct) simp_all

lemma publish_calls_check_payload: "publish_calls (fst (check_payload ip s)) = []"
  by (simp add: check_payload_def split: sum.splits)

lemma on_message_undecodable:
  "utf8_decode (payload msg) = None \<Longrightarrow> on_message cfg ip publish msg = ([], Some UnicodeDecodeError)"
  by (simp add: on_message_def)

lemma on_message_check_raises:
  "utf8_decode (payload msg) = Some s \<Longrightarrow> check_payload ip s = (warnings, Some e) \<Longrightarrow>
   on_message cfg ip publish msg = (Log INFO (Received (topic msg) s) # warnings, Some e)"
  by (simp add: on_message_def)

lemma on_message_publish_raises:
  "utf8_decode (payload msg) = Some s \<Longrightarrow> check_payload ip s = (warnings, None) \<Longrightarrow>
   publish (RFID_TOPIC cfg) s 1 = Inl e \<Longrightarrow>
   on_message cfg ip publish msg =
     (Log INFO (Received (topic msg) s) # warnings @ [RabbitPublish (RFID_TOPIC cfg) s 1], Some e)"
  by (simp add: on_message_def)

lemma on_message_published:
  "utf8_decode (payload msg) = Some s \<Longrightarrow> check_payload ip s = (warnings, None) \<Longrightarrow>
   publish (RFID_TOPIC cfg) s 1 = Inr result \<Longrightarrow>
   on_message cfg ip publish msg =
     (Log INFO (Received (topic msg) s) # warnings
        @ [RabbitPublish (RFID_TOPIC cfg) s 1,
           if rc result = MQTT_ERR_SUCCESS then Log INFO (Forwarded (mid result))
           else Log ERROR (FailedPublish (rc result))],
      None)"
  by (simp add: on_message_def)

lemma publish_calls_on_message:
  "publish_calls (fst (on_message cfg ip publish msg)) =
     (case utf8_decode (payload msg) of
        None \<Rightarrow> []
      | Some s \<Rightarrow> if snd (check_payload ip s) = None then [(RFID_TOPIC cfg, s, 1)] else [])"
proof (cases "utf8_decode (payload msg)")
  case None
  then show ?thesis by (simp add: on_message_undecodable)
next
  case (Some s)
  obtain warnings x where c: "check_payload ip s = (warnings, x)" by (cases "check_payload ip s")
  have w: "publish_calls warnings = []" using publish_calls_check_payload[of ip s] c by simp
  show ?thesis
  proof (cases x)
    case None
    show ?thesis
    proof (cases "publish (RFID_TOPIC cfg) s 1")
      case (Inl e)
      show ?thesis
        using Some c None w
        by (simp add: on_message_publish_raises[where publish = publish and cfg = cfg and ip = ip, OF Some c[unfolded None] Inl] publish_calls_append)
    next
      case (Inr result)
      show ?thesis
        using Some c None w
        by (simp add: on_message_published[where publish = publish and cfg = cfg and ip = ip, OF Some c[unfolded None] Inr] publish_calls_append)
    qed
  next
    case (Some e)
    show ?thesis
      using \<open>utf8_decode (payload msg) = Some s\<close> c Some w
      by (simp add: on_message_check_raises[OF \<open>utf8_decode (payload msg) = Some s\<close> c[unfolded Some]])
  qed
qed

lemma check_payload_not_json:
  "json_loads ip s = Inl JSONDecodeError \<Longrightarrow> check_payload ip s = ([Log WARNING NotValidJSON], None)"
  by (simp add: check_payload_def)

lemma check_payload_object:
  "json_loads ip s = Inr (JObject ps) \<Longrightarrow>
   check_payload ip s = (if py ''tag_id'' \<in> set (map fst ps) then [] else [Log WARNING MissingTagId], None)"
  by (simp add: check_payload_def)

lemma check_payload_scalar:
  "json_loads ip s = Inr v \<Longrightarrow> v = JNull \<or> (\<exists>b. v = JBool b) \<or> (\<exists>n. v = JNumber n) \<Longrightarrow>
   check_payload ip s = ([], Some TypeError)"
  by (auto simp add: check_payload_def)

lemma loop_forever_append:
  "loop_forever cfg ip pre = (t, None) \<Longrightarrow>
   loop_forever cfg ip (pre @ es) = (t @ fst (loop_forever cfg ip es), snd (loop_forever cfg ip es))"
proof (induction cfg ip pre arbitrary: t rule: loop_forever.induct)
  case (1 cfg ip)
  then show ?case by simp
next
  case (2 cfg ip es')
  then show ?case by simp
next
  case (3 cfg ip r subscribe es')
  then show ?case by (auto split: prod.splits option.splits)
next
  case (4 cfg ip r es')
  then show ?case by (auto split: prod.splits)
next
  case (5 cfg ip m publish es')
  then show ?case by (auto split: prod.splits option.splits)
qed

subsection \<open>Evaluating the model on concrete inputs\<close>

lemmas json_eval = json_loads_def py_def skip_ws_def ws_def literal_def scan_atom_def
  int_too_long_def cpython_def
  match_number_def
  match_int_def match_frac_def match_exp_def digit_def decode_uXXXX_def scan_escape_def
  hexval_def backslash_def

lemmas relay_eval = on_message_def check_payload_def scan_msg_def ascii_def accepts_def
  fails_def raises_def default_config_def MQTT_ERR_SUCCESS_def cont_def lo2_def

lemmas main_eval = main_def connect_rabbitmq_def on_connect_def on_disconnect_def
  exit_status_def

subsection \<open>What main does, case by case\<close>

lemma head_before:
  "x # xs = pre @ a # post \<Longrightarrow> a \<noteq> x \<Longrightarrow> x \<in> set pre"
  by (cases pre) auto

lemma source_action_connect_rabbitmq:
  "\<not> list_ex source_action (fst (connect_rabbitmq cfg (Some e)))"
  by (simp add: connect_rabbitmq_def)

lemma main_destination_fails:
  "rabbitmq_connect w = Some e \<Longrightarrow> main cfg ip w = connect_rabbitmq cfg (Some e)"
  by (simp add: main_def connect_rabbitmq_def)

lemma main_source_fails:
  "rabbitmq_connect w = None \<Longrightarrow> mosquitto_connect w = Some e \<Longrightarrow>
   main cfg ip w =
     (connected cfg @ MosqConnect (MOSQUITTO_HOST cfg) (MOSQUITTO_PORT cfg) 60 #
        (if e = OSError
         then [Log ERROR (CannotConnectMosquitto (MOSQUITTO_HOST cfg) (MOSQUITTO_PORT cfg)),
               RabbitLoopStop, RabbitDisconnect]
         else []),
      Some e)"
  by (simp add: main_def connect_rabbitmq_def connected_def)

lemma main_running:
  "rabbitmq_connect w = None \<Longrightarrow> mosquitto_connect w = None \<Longrightarrow>
   loop_forever cfg ip (events w) = (t, x) \<Longrightarrow>
   main cfg ip w =
     (connected cfg
        @ [MosqConnect (MOSQUITTO_HOST cfg) (MOSQUITTO_PORT cfg) 60,
           Log INFO RelayRunning, MosqLoopForever]
        @ t
        @ (if x = Some KeyboardInterrupt then [Log INFO RelayStopped] else [])
        @ [MosqDisconnect, RabbitLoopStop, RabbitDisconnect],
      if x = Some KeyboardInterrupt then None else x)"
  by (simp add: main_def connect_rabbitmq_def connected_def)

lemma main_connected_first:
  assumes "rabbitmq_connect w = None"
  shows "\<exists>rest. fst (main cfg ip w)
           = RabbitConnect (RABBITMQ_HOST cfg) (RABBITMQ_PORT cfg) 60 # rest"
proof (cases "mosquitto_connect w")
  case None
  obtain t x where l: "loop_forever cfg ip (events w) = (t, x)"
    by (cases "loop_forever cfg ip (events w)")
  show ?thesis unfolding main_running[OF assms None l] by (simp add: connected_def)
next
  case (Some e)
  show ?thesis unfolding main_source_fails[OF assms Some] by (simp add: connected_def)
qed

subsection \<open>The limits of the interpreter\<close>

text \<open>
  Arrays nested deeper than the interpreter has room for raise \<open>RecursionError\<close>, an
  integer of more digits than the limit raises \<open>ValueError\<close>, and neither is caught by
  the \<open>try\<close> statement of \<open>on_message\<close>.
\<close>

lemma nested_too_deep:
  "json_loads \<lparr>recursion_room = 2, max_str_digits = 4300\<rparr> (py ''[[[]]]'')
     = Inl RecursionError"
  "json_loads cpython (py ''[[[]]]'') = Inr (JArray [JArray [JArray []]])"
  by (simp_all add: json_eval)

lemma long_integer_raises:
  assumes "640 < k" and "0 < max_str_digits ip" and "max_str_digits ip < k"
  shows "json_loads ip (replicate k 0x31) = Inl ValueError"
proof -
  obtain j where k: "k = Suc j" using assms(1) by (cases k) auto
  let ?t = "replicate j (0x31::nat)"
  have s: "replicate k (0x31::nat) = 0x31 # ?t" by (simp add: k)
  have n: "match_number (0x31 # ?t) = Some (0x31 # ?t, [])"
    by (simp add: match_number_def match_int_def match_frac_def match_exp_def digit_def)
  have d: "length (filter digit (0x31 # ?t)) = k"
    by (simp add: digit_def k)
  have f: "filter (\<lambda>c. c = 0x2E \<or> c = 0x65 \<or> c = 0x45) (0x31 # ?t) = []"
    by simp
  have l: "int_too_long (max_str_digits ip) (0x31 # ?t)"
    unfolding int_too_long_def d f using assms by simp
  have a: "scan_atom (max_str_digits ip) (0x31 # ?t) = Inl ValueError"
    unfolding scan_atom_def n using l by (simp add: literal_def py_def)
  show ?thesis
    unfolding s by (simp add: json_loads_def skip_ws_def ws_def a)
qed

lemma on_message_decoder_limit:
  assumes "utf8_decode (payload msg) = Some s" and "json_loads ip s = Inl e"
    and "e \<noteq> JSONDecodeError"
  shows "on_message cfg ip publish msg = ([Log INFO (Received (topic msg) s)], Some e)"
proof -
  have "check_payload ip s = ([], Some e)"
    using assms(2,3) by (simp add: check_payload_def)
  then show ?thesis
    using on_message_check_raises[OF assms(1), of ip "[]" e cfg publish] by simp
qed

text \<open>A \<open>subscribe\<close> that raises leaves \<open>on_connect\<close> and the receive loop.\<close>

lemma subscribe_failure_stops_loop:
  "loop_forever cfg ip (Connack 0 (Some e) # es) =
     ([Log INFO (ConnectedMosquitto (MOSQUITTO_HOST cfg) (MOSQUITTO_PORT cfg)
                   (RFID_TOPIC cfg)),
       MosqSubscribe (RFID_TOPIC cfg)],
      Some e)"
  by (simp add: on_connect_def)

subsection \<open>Forwarding: what holds for the messages that reach the publish call\<close>

text \<open>
  A payload that is well-formed UTF-8 and passes the \<open>try\<close> statement is published once,
  to the configured topic, with QoS 1, and the bytes the client sends are the bytes
  received. A payload that is not JSON, and a JSON object without \<open>tag_id\<close>, are
  published with a warning. A publish that returns an error code is logged as an error and
  the loop goes on with the next event.
\<close>

lemma forwarding_fidelity:
  assumes "utf8_decode (payload msg) = Some s" and "snd (check_payload ip s) = None"
  shows "publish_calls (fst (on_message cfg ip publish msg)) = [(RFID_TOPIC cfg, s, 1)]
         \<and> utf8_encode s = Some (payload msg)"
  using assms by (simp add: publish_calls_on_message utf8_roundtrip)

lemma at_most_one_publish:
  "length (publish_calls (fst (on_message cfg ip publish msg))) \<le> 1"
  by (simp add: publish_calls_on_message split: option.splits)

lemma not_forwarded_iff:
  "publish_calls (fst (on_message cfg ip publish msg)) = [] \<longleftrightarrow>
     utf8_decode (payload msg) = None
     \<or> (\<exists>s e. utf8_decode (payload msg) = Some s \<and> snd (check_payload ip s) = Some e)"
  by (cases "utf8_decode (payload msg)") (auto simp: publish_calls_on_message)

lemma not_forwarded_cases:
  assumes "publish_calls (fst (on_message cfg ip publish msg)) = []"
  shows "utf8_decode (payload msg) = None
     \<or> (\<exists>s. utf8_decode (payload msg) = Some s
           \<and> ((\<exists>v. json_loads ip s = Inr v
                   \<and> (v = JNull \<or> (\<exists>b. v = JBool b) \<or> (\<exists>n. v = JNumber n)))
                \<or> json_loads ip s = Inl RecursionError
                \<or> json_loads ip s = Inl ValueError))"
proof (cases "utf8_decode (payload msg)")
  case None
  then show ?thesis by simp
next
  case (Some s)
  then obtain e where e: "snd (check_payload ip s) = Some e"
    using assms not_forwarded_iff[of cfg ip publish msg] by auto
  show ?thesis
  proof (cases "e = TypeError")
    case True
    then show ?thesis using Some e check_payload_TypeError[of ip s] by simp
  next
    case False
    then show ?thesis using Some check_payload_limits[OF e False] by auto
  qed
qed

lemma malformed_passthrough:
  assumes "utf8_decode (payload msg) = Some s" and "json_loads ip s = Inl JSONDecodeError"
    and "publish (RFID_TOPIC cfg) s 1 = Inr result"
  shows "on_message cfg ip publish msg =
     ([Log INFO (Received (topic msg) s), Log WARNING NotValidJSON,
       RabbitPublish (RFID_TOPIC cfg) s 1,
       if rc result = MQTT_ERR_SUCCESS then Log INFO (Forwarded (mid result))
       else Log ERROR (FailedPublish (rc result))],
      None)"
  using on_message_published[where publish = publish and cfg = cfg and ip = ip,
      OF assms(1) check_payload_not_json[OF assms(2)] assms(3)]
  by simp

lemma missing_field_passthrough:
  assumes "utf8_decode (payload msg) = Some s" and "json_loads ip s = Inr (JObject ps)"
    and "py ''tag_id'' \<notin> set (map fst ps)"
    and "publish (RFID_TOPIC cfg) s 1 = Inr result"
  shows "on_message cfg ip publish msg =
     ([Log INFO (Received (topic msg) s), Log WARNING MissingTagId,
       RabbitPublish (RFID_TOPIC cfg) s 1,
       if rc result = MQTT_ERR_SUCCESS then Log INFO (Forwarded (mid result))
       else Log ERROR (FailedPublish (rc result))],
      None)"
proof -
  have c: "check_payload ip s = ([Log WARNING MissingTagId], None)"
    using check_payload_object[OF assms(2)] assms(3) by simp
  show ?thesis
    using on_message_published[where publish = publish and cfg = cfg and ip = ip, OF assms(1) c assms(4)]
    by simp
qed

lemma publish_failure_not_fatal:
  assumes "utf8_decode (payload msg) = Some s" and "check_payload ip s = (warnings, None)"
    and "publish (RFID_TOPIC cfg) s 1 = Inr result" and "rc result \<noteq> MQTT_ERR_SUCCESS"
  shows "on_message cfg ip publish msg =
           (Log INFO (Received (topic msg) s) # warnings
              @ [RabbitPublish (RFID_TOPIC cfg) s 1, Log ERROR (FailedPublish (rc result))],
            None)"
    and "loop_forever cfg ip (Message msg publish # es) =
           (Log INFO (Received (topic msg) s) # warnings
              @ [RabbitPublish (RFID_TOPIC cfg) s 1, Log ERROR (FailedPublish (rc result))]
              @ fst (loop_forever cfg ip es),
            snd (loop_forever cfg ip es))"
proof -
  show m: "on_message cfg ip publish msg =
           (Log INFO (Received (topic msg) s) # warnings
              @ [RabbitPublish (RFID_TOPIC cfg) s 1, Log ERROR (FailedPublish (rc result))],
            None)"
    using on_message_published[where publish = publish and cfg = cfg and ip = ip,
        OF assms(1) assms(2) assms(3)] assms(4)
    by simp
  show "loop_forever cfg ip (Message msg publish # es) =
           (Log INFO (Received (topic msg) s) # warnings
              @ [RabbitPublish (RFID_TOPIC cfg) s 1, Log ERROR (FailedPublish (rc result))]
              @ fst (loop_forever cfg ip es),
            snd (loop_forever cfg ip es))"
    by (simp add: m split: prod.splits)
qed

section \<open>The claims\<close>

text \<open>
  C1. For every payload received on the source topic while both links are connected, the
  relay publishes exactly one message whose payload bytes are identical to the received
  bytes. The code decodes the payload before anything else and outside the \<open>try\<close>
  statement: the payload of one byte \<open>0xFF\<close> is not UTF-8, \<open>on_message\<close> raises
  \<open>UnicodeDecodeError\<close> and nothing is published. (\<open>forwarding_fidelity\<close> is the
  claim for the payloads that reach the publish call.)
\<close>

theorem C1_undecodable_payload_not_forwarded:
  "on_message default_config cpython (accepts 1) (scan_msg [0xFF]) = ([], Some UnicodeDecodeError)"
  by (simp add: relay_eval)

text \<open>
  C2. The QoS of the publish call equals the QoS of the source message. As stated this
  fails: a message delivered with QoS 0 is published with QoS 1.
\<close>

theorem C2_counterexample:
  "publish_calls (fst (on_message default_config cpython (accepts 1) (scan_msg (ascii ''{\"tag_id\":\"A1\"}''))))
     = [(py ''rfid/scan'', py ''{\"tag_id\":\"A1\"}'', 1)]
   \<and> qos (scan_msg (ascii ''{\"tag_id\":\"A1\"}'')) = 0"
  by (simp add: relay_eval json_eval)

text \<open>
  C2, amended. Every publish call of \<open>on_message\<close> has QoS 1, whatever the QoS of the
  message received.
\<close>

theorem C2_publish_qos_is_one:
  "(t, p, q) \<in> set (publish_calls (fst (on_message cfg ip publish msg))) \<Longrightarrow> q = 1"
  by (simp add: publish_calls_on_message split: option.splits if_splits)

theorem C2_publish_qos_is_one_witness:
  "(py ''rfid/scan'', py ''{\"tag_id\":\"A1\"}'', 1)
     \<in> set (publish_calls (fst (on_message default_config cpython (accepts 1)
                (scan_msg (ascii ''{\"tag_id\":\"A1\"}'')))))
   \<and> (1::nat) = 1"
proof -
  have m: "(py ''rfid/scan'', py ''{\"tag_id\":\"A1\"}'', 1)
     \<in> set (publish_calls (fst (on_message default_config cpython (accepts 1)
                (scan_msg (ascii ''{\"tag_id\":\"A1\"}'')))))"
    by (simp add: relay_eval json_eval)
  show ?thesis using m C2_publish_qos_is_one[OF m] by simp
qed

text \<open>
  C3. The topic of the publish call is the topic the message was received on. As stated
  this fails: with the relay topic configured as the filter \<open>rfid/#\<close>, a message
  received on \<open>rfid/scan\<close> is published to \<open>rfid/#\<close>.
\<close>

theorem C3_counterexample:
  "publish_calls (fst (on_message (default_config\<lparr>RFID_TOPIC := py ''rfid/#''\<rparr>) cpython
      (raises ValueError) (scan_msg (ascii ''{\"tag_id\":\"A1\"}''))))
     = [(py ''rfid/#'', py ''{\"tag_id\":\"A1\"}'', 1)]
   \<and> topic (scan_msg (ascii ''{\"tag_id\":\"A1\"}'')) = py ''rfid/scan''
   \<and> py ''rfid/scan'' \<noteq> py ''rfid/#''"
  by (simp add: relay_eval json_eval)

text \<open>
  C3, amended. The topic of every publish call of \<open>on_message\<close> is the configured
  relay topic \<open>RFID_TOPIC\<close>; it is the topic of the message whenever the message was
  received on \<open>RFID_TOPIC\<close>.
\<close>

theorem C3_publish_topic_is_configured:
  "(t, p, q) \<in> set (publish_calls (fst (on_message cfg ip publish msg))) \<Longrightarrow>
   t = RFID_TOPIC cfg \<and> (topic msg = RFID_TOPIC cfg \<longrightarrow> t = topic msg)"
  by (simp add: publish_calls_on_message split: option.splits if_splits)

theorem C3_publish_topic_is_configured_witness:
  "(py ''rfid/scan'', py ''{\"x\":1}'', 1)
     \<in> set (publish_calls (fst (on_message default_config cpython (accepts 1)
                (scan_msg (ascii ''{\"x\":1}'')))))
   \<and> topic (scan_msg (ascii ''{\"x\":1}'')) = RFID_TOPIC default_config
   \<and> py ''rfid/scan'' = topic (scan_msg (ascii ''{\"x\":1}''))"
proof -
  have m: "(py ''rfid/scan'', py ''{\"x\":1}'', 1)
     \<in> set (publish_calls (fst (on_message default_config cpython (accepts 1)
                (scan_msg (ascii ''{\"x\":1}'')))))"
    by (simp add: relay_eval json_eval)
  have t: "topic (scan_msg (ascii ''{\"x\":1}'')) = RFID_TOPIC default_config"
    by (simp add: scan_msg_def default_config_def)
  show ?thesis using m t C3_publish_topic_is_configured[OF m] by simp
qed

text \<open>
  C4. Whatever the outcome of the UTF-8 decode and of the parse, a warning is logged on
  failure and the message is still forwarded. On the two bytes \<open>0xC3 0x28\<close>, which
  are not UTF-8, \<open>on_message\<close> logs nothing, publishes nothing and raises
  \<open>UnicodeDecodeError\<close>.
\<close>

theorem C4_decode_failure_drops_message:
  "on_message default_config cpython (accepts 1) (scan_msg [0xC3, 0x28]) = ([], Some UnicodeDecodeError)"
  by (simp add: relay_eval)

text \<open>
  C5. A payload that is valid UTF-8 and valid JSON without the field \<open>tag_id\<close> is
  published with a warning. The payload \<open>1\<close> is valid JSON and has no field at all:
  \<open>"tag_id" not in 1\<close> raises \<open>TypeError\<close>, which the \<open>try\<close> statement does not
  catch; no warning is logged and nothing is published. (\<open>malformed_passthrough\<close> and
  \<open>missing_field_passthrough\<close> are the claim for text that is not JSON and for JSON
  objects.)
\<close>

theorem C5_json_scalar_not_forwarded:
  "on_message default_config cpython (accepts 1) (scan_msg (ascii ''1''))
     = ([Log INFO (Received (py ''rfid/scan'') (py ''1''))], Some TypeError)"
  by (simp add: relay_eval json_eval)

text \<open>
  C6. If the destination broker connection fails at startup, the process never issues a
  subscribe or connect call to the source broker and exits with a non-zero status. As
  stated this fails: \<open>connect\<close> returns before the destination broker answers and no
  callback of the program receives the answer, so when the destination broker refuses the
  session (return code 5) the relay logs that it is connected, connects and subscribes on
  the source, and exits with status 0 when the user interrupts it.
\<close>

theorem C6_counterexample:
  "\<not> destination_connected destination_refused
   \<and> main default_config cpython destination_refused =
     (connected default_config
        @ [MosqConnect (py ''localhost'') 1883 60, Log INFO RelayRunning, MosqLoopForever,
           Log INFO (ConnectedMosquitto (py ''localhost'') 1883 (py ''rfid/scan'')),
           MosqSubscribe (py ''rfid/scan''), Log INFO RelayStopped,
           MosqDisconnect, RabbitLoopStop, RabbitDisconnect],
      None)
   \<and> exit_status (main default_config cpython destination_refused) = 0"
  by (simp add: main_eval destination_refused_def destination_connected_def
      default_config_def connected_def)

text \<open>
  C6, amended. If the destination's \<open>connect\<close> call raises at startup, \<open>main\<close> makes
  no call on the source client (no connect, no subscribe) and the process exits with a
  non-zero status; and in every run, a call on the source client is preceded by the
  destination's \<open>connect\<close> call, which returned.
\<close>

theorem C6_destination_connects_first:
  "(rabbitmq_connect w \<noteq> None \<longrightarrow>
      \<not> list_ex source_action (fst (main cfg ip w)) \<and> exit_status (main cfg ip w) \<noteq> 0)
   \<and> (fst (main cfg ip w) = pre @ a # post \<and> source_action a \<longrightarrow>
        rabbitmq_connect w = None
        \<and> RabbitConnect (RABBITMQ_HOST cfg) (RABBITMQ_PORT cfg) 60 \<in> set pre)"
proof (intro conjI impI)
  assume f: "rabbitmq_connect w \<noteq> None"
  then obtain e where e: "rabbitmq_connect w = Some e" by blast
  show "\<not> list_ex source_action (fst (main cfg ip w))"
    unfolding main_destination_fails[OF e] by (rule source_action_connect_rabbitmq)
  show "exit_status (main cfg ip w) \<noteq> 0"
    unfolding main_destination_fails[OF e] by (simp add: exit_status_def connect_rabbitmq_def)
next
  assume h: "fst (main cfg ip w) = pre @ a # post \<and> source_action a"
  show ok: "rabbitmq_connect w = None"
  proof (rule ccontr)
    assume "rabbitmq_connect w \<noteq> None"
    then obtain e where e: "rabbitmq_connect w = Some e" by blast
    have "a \<in> set (fst (connect_rabbitmq cfg (Some e)))"
      using h unfolding main_destination_fails[OF e] by simp
    then have "list_ex source_action (fst (connect_rabbitmq cfg (Some e)))"
      using h by (auto simp: list_ex_iff)
    then show False using source_action_connect_rabbitmq by blast
  qed
  obtain rest where r: "fst (main cfg ip w)
      = RabbitConnect (RABBITMQ_HOST cfg) (RABBITMQ_PORT cfg) 60 # rest"
    using main_connected_first[OF ok] by blast
  have ne: "a \<noteq> RabbitConnect (RABBITMQ_HOST cfg) (RABBITMQ_PORT cfg) 60" using h by auto
  have "RabbitConnect (RABBITMQ_HOST cfg) (RABBITMQ_PORT cfg) 60 # rest = pre @ a # post"
    using r h by simp
  then show "RabbitConnect (RABBITMQ_HOST cfg) (RABBITMQ_PORT cfg) 60 \<in> set pre"
    using ne by (rule head_before)
qed

theorem C6_destination_connects_first_witness:
  "rabbitmq_connect startup_failure \<noteq> None
   \<and> \<not> list_ex source_action (fst (main default_config cpython startup_failure))
   \<and> exit_status (main default_config cpython startup_failure) \<noteq> 0
   \<and> fst (main default_config cpython interrupted)
       = connected default_config @ MosqConnect (py ''localhost'') 1883 60
           # [Log INFO RelayRunning, MosqLoopForever,
              Log INFO (ConnectedMosquitto (py ''localhost'') 1883 (py ''rfid/scan'')),
              MosqSubscribe (py ''rfid/scan''), Log INFO RelayStopped,
              MosqDisconnect, RabbitLoopStop, RabbitDisconnect]
   \<and> source_action (MosqConnect (py ''localhost'') 1883 60)
   \<and> rabbitmq_connect interrupted = None
   \<and> RabbitConnect (RABBITMQ_HOST default_config) (RABBITMQ_PORT default_config) 60
        \<in> set (connected default_config)"
proof -
  have a: "rabbitmq_connect startup_failure \<noteq> None" by (simp add: startup_failure_def)
  have b: "fst (main default_config cpython interrupted)
       = connected default_config @ MosqConnect (py ''localhost'') 1883 60
           # [Log INFO RelayRunning, MosqLoopForever,
              Log INFO (ConnectedMosquitto (py ''localhost'') 1883 (py ''rfid/scan'')),
              MosqSubscribe (py ''rfid/scan''), Log INFO RelayStopped,
              MosqDisconnect, RabbitLoopStop, RabbitDisconnect]"
    by (simp add: main_eval interrupted_def default_config_def connected_def)
  have c: "source_action (MosqConnect (py ''localhost'') 1883 60)" by simp
  show ?thesis
    using a b c
      C6_destination_connects_first[of startup_failure default_config cpython "[]"
        MosqDisconnect "[]"]
      C6_destination_connects_first[of interrupted default_config cpython
        "connected default_config"
        "MosqConnect (py ''localhost'') 1883 60"
        "[Log INFO RelayRunning, MosqLoopForever,
              Log INFO (ConnectedMosquitto (py ''localhost'') 1883 (py ''rfid/scan'')),
              MosqSubscribe (py ''rfid/scan''), Log INFO RelayStopped,
              MosqDisconnect, RabbitLoopStop, RabbitDisconnect]"]
    by simp
qed

text \<open>
  C7. If the initial connection to either broker fails, including the source broker
  refusing the connection, the process logs the error and terminates with a non-zero
  status. As stated this fails: when the source broker answers the connection request with
  return code 5, the relay logs an error, does not subscribe, keeps running, and exits
  with status 0 when the user interrupts it.
\<close>

theorem C7_counterexample:
  "main default_config cpython refused =
     (connected default_config
        @ [MosqConnect (py ''localhost'') 1883 60, Log INFO RelayRunning, MosqLoopForever,
           Log ERROR (FailedConnectMosquitto 5), Log INFO RelayStopped,
           MosqDisconnect, RabbitLoopStop, RabbitDisconnect],
      None)
   \<and> exit_status (main default_config cpython refused) = 0"
  by (simp add: main_eval refused_def default_config_def connected_def)

text \<open>
  C7, amended. If the \<open>connect\<close> call to either broker raises \<open>OSError\<close> at startup,
  the process logs the error and terminates with exit status 1 without subscribing. If the
  source broker answers the connection request with a non-zero return code,
  \<open>on_connect\<close> logs an error and does not subscribe, and the receive loop goes on
  with the next event.
\<close>

theorem C7_startup_failures:
  "(rabbitmq_connect w = Some OSError \<longrightarrow>
      main cfg ip w =
        ([RabbitConnect (RABBITMQ_HOST cfg) (RABBITMQ_PORT cfg) 60,
          Log ERROR (CannotConnectRabbitMQ (RABBITMQ_HOST cfg) (RABBITMQ_PORT cfg))],
         Some OSError)
      \<and> exit_status (main cfg ip w) = 1)
   \<and> (rabbitmq_connect w = None \<and> mosquitto_connect w = Some OSError \<longrightarrow>
      main cfg ip w =
        (connected cfg
           @ [MosqConnect (MOSQUITTO_HOST cfg) (MOSQUITTO_PORT cfg) 60,
              Log ERROR (CannotConnectMosquitto (MOSQUITTO_HOST cfg) (MOSQUITTO_PORT cfg)),
              RabbitLoopStop, RabbitDisconnect],
         Some OSError)
      \<and> exit_status (main cfg ip w) = 1)
   \<and> (r \<noteq> 0 \<longrightarrow>
      on_connect cfg r subscribe = ([Log ERROR (FailedConnectMosquitto r)], None)
      \<and> loop_forever cfg ip (Connack r subscribe # es) =
          (Log ERROR (FailedConnectMosquitto r) # fst (loop_forever cfg ip es),
           snd (loop_forever cfg ip es)))"
proof (intro conjI impI)
  assume a: "rabbitmq_connect w = Some OSError"
  show m: "main cfg ip w =
        ([RabbitConnect (RABBITMQ_HOST cfg) (RABBITMQ_PORT cfg) 60,
          Log ERROR (CannotConnectRabbitMQ (RABBITMQ_HOST cfg) (RABBITMQ_PORT cfg))],
         Some OSError)"
    unfolding main_destination_fails[OF a] by (simp add: connect_rabbitmq_def)
  show "exit_status (main cfg ip w) = 1" unfolding m by (simp add: exit_status_def)
next
  assume a: "rabbitmq_connect w = None \<and> mosquitto_connect w = Some OSError"
  show m: "main cfg ip w =
        (connected cfg
           @ [MosqConnect (MOSQUITTO_HOST cfg) (MOSQUITTO_PORT cfg) 60,
              Log ERROR (CannotConnectMosquitto (MOSQUITTO_HOST cfg) (MOSQUITTO_PORT cfg)),
              RabbitLoopStop, RabbitDisconnect],
         Some OSError)"
    unfolding main_source_fails[OF a[THEN conjunct1] a[THEN conjunct2]] by simp
  show "exit_status (main cfg ip w) = 1" unfolding m by (simp add: exit_status_def)
next
  assume r: "r \<noteq> 0"
  show c: "on_connect cfg r subscribe = ([Log ERROR (FailedConnectMosquitto r)], None)"
    using r by (simp add: on_connect_def)
  show "loop_forever cfg ip (Connack r subscribe # es) =
          (Log ERROR (FailedConnectMosquitto r) # fst (loop_forever cfg ip es),
           snd (loop_forever cfg ip es))"
    by (simp add: c split: prod.splits)
qed

theorem C7_startup_failures_witness:
  "rabbitmq_connect startup_failure = Some OSError
   \<and> exit_status (main default_config cpython startup_failure) = 1
   \<and> rabbitmq_connect (source_failure OSError) = None
   \<and> mosquitto_connect (source_failure OSError) = Some OSError
   \<and> exit_status (main default_config cpython (source_failure OSError)) = 1
   \<and> (5::int) \<noteq> 0
   \<and> loop_forever default_config cpython [Connack 5 None, CtrlC]
       = ([Log ERROR (FailedConnectMosquitto 5)], Some KeyboardInterrupt)"
proof -
  have a: "rabbitmq_connect startup_failure = Some OSError" by (simp add: startup_failure_def)
  have b: "rabbitmq_connect (source_failure OSError) = None
           \<and> mosquitto_connect (source_failure OSError) = Some OSError"
    by (simp add: source_failure_def)
  have c: "(5::int) \<noteq> 0" by simp
  show ?thesis
    using a b c
      C7_startup_failures[of startup_failure default_config cpython 5 None "[CtrlC]"]
      C7_startup_failures[of "source_failure OSError" default_config cpython 5 None "[CtrlC]"]
    by (simp add: exit_status_def)
qed

text \<open>
  C8. On a user interruption signal the receive loop stops, the source client is
  disconnected before the destination is torn down, no publish call follows, and the
  process exits with status 0. As stated this fails: only the receive loop is inside the
  \<open>try\<close> statement that catches \<open>KeyboardInterrupt\<close>. An interrupt while the source's
  \<open>connect\<close> call blocks leaves \<open>main\<close> uncaught: neither client is disconnected, the
  destination's loop is not stopped, and the exit status is 130.
\<close>

theorem C8_counterexample:
  "main default_config cpython (source_failure KeyboardInterrupt) =
     (connected default_config @ [MosqConnect (py ''localhost'') 1883 60],
      Some KeyboardInterrupt)
   \<and> exit_status (main default_config cpython (source_failure KeyboardInterrupt)) = 130"
  by (simp add: main_eval source_failure_def default_config_def connected_def)

text \<open>
  C8, amended. On a user interruption signal that arrives while the receive loop runs,
  the receive loop stops, the source client is disconnected before the destination
  client's loop is stopped and the destination is disconnected, no publish call follows
  the interrupt, and the process exits with status 0. Here both \<open>connect\<close> calls have
  returned, \<open>pre\<close> are the events handled before the interrupt, none of which raised, and
  \<open>rest\<close> the events after it.
\<close>

theorem C8_interrupt_shutdown:
  assumes "rabbitmq_connect w = None" and "mosquitto_connect w = None"
    and "events w = pre @ CtrlC # rest" and "loop_forever cfg ip pre = (t, None)"
  shows "main cfg ip w =
           (connected cfg
              @ [MosqConnect (MOSQUITTO_HOST cfg) (MOSQUITTO_PORT cfg) 60,
                 Log INFO RelayRunning, MosqLoopForever]
              @ t
              @ [Log INFO RelayStopped, MosqDisconnect, RabbitLoopStop, RabbitDisconnect],
            None)
         \<and> publish_calls (fst (main cfg ip w)) = publish_calls t
         \<and> exit_status (main cfg ip w) = 0"
proof -
  have l: "loop_forever cfg ip (events w) = (t, Some KeyboardInterrupt)"
    unfolding assms(3) loop_forever_append[OF assms(4)] by simp
  have m: "main cfg ip w =
           (connected cfg
              @ [MosqConnect (MOSQUITTO_HOST cfg) (MOSQUITTO_PORT cfg) 60,
                 Log INFO RelayRunning, MosqLoopForever]
              @ t
              @ [Log INFO RelayStopped, MosqDisconnect, RabbitLoopStop, RabbitDisconnect],
            None)"
    unfolding main_running[OF assms(1) assms(2) l] by simp
  show ?thesis
    unfolding m by (simp add: publish_calls_append connected_def exit_status_def)
qed

theorem C8_interrupt_shutdown_witness:
  "main default_config cpython busy =
     (connected default_config
        @ [MosqConnect (py ''localhost'') 1883 60, Log INFO RelayRunning, MosqLoopForever]
        @ [Log INFO (ConnectedMosquitto (py ''localhost'') 1883 (py ''rfid/scan'')),
           MosqSubscribe (py ''rfid/scan''),
           Log INFO (Received (py ''rfid/scan'') (py ''{\"x\":1}'')),
           Log WARNING MissingTagId,
           RabbitPublish (py ''rfid/scan'') (py ''{\"x\":1}'') 1,
           Log ERROR (FailedPublish 4)]
        @ [Log INFO RelayStopped, MosqDisconnect, RabbitLoopStop, RabbitDisconnect],
      None)
   \<and> exit_status (main default_config cpython busy) = 0"
proof -
  have a: "rabbitmq_connect busy = None" "mosquitto_connect busy = None"
    by (simp_all add: busy_def)
  have e: "events busy =
      [Connack 0 None, Message (scan_msg (ascii ''{\"x\":1}'')) (fails 4)]
        @ CtrlC # [Message (scan_msg (ascii ''{\"tag_id\":\"A1\"}'')) (accepts 2)]"
    by (simp add: busy_def)
  have l: "loop_forever default_config cpython
             [Connack 0 None, Message (scan_msg (ascii ''{\"x\":1}'')) (fails 4)]
       = ([Log INFO (ConnectedMosquitto (py ''localhost'') 1883 (py ''rfid/scan'')),
           MosqSubscribe (py ''rfid/scan''),
           Log INFO (Received (py ''rfid/scan'') (py ''{\"x\":1}'')),
           Log WARNING MissingTagId,
           RabbitPublish (py ''rfid/scan'') (py ''{\"x\":1}'') 1,
           Log ERROR (FailedPublish 4)], None)"
    by (simp add: relay_eval json_eval on_connect_def)
  show ?thesis
    using C8_interrupt_shutdown[OF a e l] by (simp add: default_config_def exit_status_def)
qed

text \<open>
  C9. For every received message exactly one publish attempt is made, and a failed publish
  is logged and does not stop the relay. For a message that is not UTF-8 no attempt is
  made: the exception leaves \<open>on_message\<close> and the receive loop, the message that
  follows is never handled, and the process ends with status 1.
  (\<open>publish_failure_not_fatal\<close> and \<open>at_most_one_publish\<close> are the rest of the
  claim.)
\<close>

theorem C9_undecodable_message_stops_relay:
  "main default_config cpython poisoned =
     (connected default_config
        @ [MosqConnect (py ''localhost'') 1883 60, Log INFO RelayRunning, MosqLoopForever,
           Log INFO (ConnectedMosquitto (py ''localhost'') 1883 (py ''rfid/scan'')),
           MosqSubscribe (py ''rfid/scan''),
           MosqDisconnect, RabbitLoopStop, RabbitDisconnect],
      Some UnicodeDecodeError)
   \<and> publish_calls (fst (main default_config cpython poisoned)) = []
   \<and> exit_status (main default_config cpython poisoned) = 1"
  by (simp add: main_eval relay_eval poisoned_def connected_def)

text \<open>
  C10. If connecting to the source broker raises at startup, the destination client's
  loop is stopped and the destination is disconnected before the error leaves \<open>main\<close>.
  As stated this fails: the handler is \<open>except OSError\<close>, and the \<open>ValueError\<close> that
  \<open>connect\<close> raises for an empty host name passes it by, leaving the destination
  connected and its loop running.
\<close>

theorem C10_counterexample:
  "main (default_config\<lparr>MOSQUITTO_HOST := []\<rparr>) cpython (source_failure ValueError) =
     (connected default_config @ [MosqConnect [] 1883 60], Some ValueError)"
  by (simp add: main_eval source_failure_def default_config_def connected_def)

text \<open>
  C10, amended. If connecting to the source broker raises \<open>OSError\<close> at startup, the
  error is logged, the destination client's loop is stopped and the destination is
  disconnected before the error leaves \<open>main\<close>.
\<close>

theorem C10_source_oserror_cleanup:
  "rabbitmq_connect w = None \<Longrightarrow> mosquitto_connect w = Some OSError \<Longrightarrow>
   main cfg ip w =
     (connected cfg
        @ [MosqConnect (MOSQUITTO_HOST cfg) (MOSQUITTO_PORT cfg) 60,
           Log ERROR (CannotConnectMosquitto (MOSQUITTO_HOST cfg) (MOSQUITTO_PORT cfg)),
           RabbitLoopStop, RabbitDisconnect],
      Some OSError)"
  by (simp add: main_source_fails)

theorem C10_source_oserror_cleanup_witness:
  "rabbitmq_connect (source_failure OSError) = None
   \<and> mosquitto_connect (source_failure OSError) = Some OSError
   \<and> main default_config cpython (source_failure OSError) =
     (connected default_config
        @ [MosqConnect (py ''localhost'') 1883 60,
           Log ERROR (CannotConnectMosquitto (py ''localhost'') 1883),
           RabbitLoopStop, RabbitDisconnect],
      Some OSError)"
proof -
  have a: "rabbitmq_connect (source_failure OSError) = None"
    and b: "mosquitto_connect (source_failure OSError) = Some OSError"
    by (simp_all add: source_failure_def)
  show ?thesis
    using a b C10_source_oserror_cleanup[OF a b, of default_config cpython]
    by (simp add: default_config_def)
qed

end
